theory Spec2Isabelle
  imports Main
begin

section \<open>The reduction signal\<close>

text \<open>
  A step returns either a plain accumulator or one wrapped as "reduced"
  (\<^verbatim>\<open>MaybeReduced<T> = T | Reduced<T>\<close> in the TypeScript source). The wrapper is a
  constructor of its own, so a value is never wrapped twice.
\<close>

datatype 'a maybe_reduced = Plain 'a | Reduced 'a

text \<open>
  The four helpers below are imported by transducers.ts from util.ts, which is not among
  the sources; each follows section 4.1 of the spec.
\<close>

text \<open>
  Modelled from the spec: \<^verbatim>\<open>reduced\<close> of util.ts, which is not among the sources.
  "signal(value) wraps a value as terminal."
\<close>

definition reduced :: "'a \<Rightarrow> 'a maybe_reduced" where
  "reduced x = Reduced x"

text \<open>
  Modelled from the spec: \<^verbatim>\<open>isReduced\<close> of util.ts, which is not among the sources.
  "isSignaled(x) tests the flag."
\<close>

fun isReduced :: "'a maybe_reduced \<Rightarrow> bool" where
  "isReduced (Reduced x) = True"
| "isReduced (Plain x) = False"

text \<open>
  Modelled from the spec: \<^verbatim>\<open>unreduced\<close> of util.ts, which is not among the sources.
  "unwrap(x) returns the underlying value whether or not signaled."
\<close>

fun unreduced :: "'a maybe_reduced \<Rightarrow> 'a" where
  "unreduced (Reduced x) = x"
| "unreduced (Plain x) = x"

text \<open>
  Modelled from the spec: \<^verbatim>\<open>ensureReduced\<close> of util.ts, which is not among the sources.
  "ensureSignaled(x) is idempotent: returns x unchanged if already signaled, else wraps it."
\<close>

definition ensureReduced :: "'a maybe_reduced \<Rightarrow> 'a maybe_reduced" where
  "ensureReduced x = (if isReduced x then x else reduced (unreduced x))"

section \<open>Transformers\<close>

text \<open>
  A transformer is an object with the three methods \<^verbatim>\<open>@@transducer/init\<close>,
  \<^verbatim>\<open>@@transducer/result\<close> and \<^verbatim>\<open>@@transducer/step\<close>. Its methods may assign to the
  fields of the object and of the downstream objects it holds, so each method takes the
  state \<open>'s\<close> of the object (everything reachable from \<^verbatim>\<open>this\<close>) and returns it updated.
  \<open>'r\<close> is the accumulator, \<open>'c\<close> the completed result, \<open>'i\<close> the input.

  Counts (\<^verbatim>\<open>n\<close>, \<^verbatim>\<open>i\<close>) are the integer values of the TypeScript type \<^verbatim>\<open>number\<close>;
  fractional values, infinities and NaN are outside the model. The strict equality
  \<^verbatim>\<open>===\<close> on inputs and keys is the equality of the element type: a primitive is its
  value, an object its reference (NaN, which is not \<^verbatim>\<open>===\<close> to itself, is outside the
  model).
\<close>

record ('s, 'r, 'c, 'i) transformer =
  transducer_init :: "'s \<Rightarrow> 'r \<times> 's"
  transducer_result :: "'s \<Rightarrow> 'r \<Rightarrow> 'c \<times> 's"
  transducer_step :: "'s \<Rightarrow> 'r \<Rightarrow> 'i \<Rightarrow> 'r maybe_reduced \<times> 's"

text \<open>A constructed object: its methods together with the current values of its fields.\<close>

type_synonym ('s, 'r, 'c, 'i) stage = "('s, 'r, 'c, 'i) transformer \<times> 's"

text \<open>
  Modelled from the spec: \<^verbatim>\<open>reduceWithFunction\<close> is imported from core.ts, which is not
  among the sources. The flatMap row of section 4.2: step each element of the finite
  sub-sequence downstream in order, stopping immediately if any sub-step signals
  termination; the signaled result is what is returned.
\<close>

fun reduceWithFunction ::
  "'o list \<Rightarrow> ('s \<Rightarrow> 'r \<Rightarrow> 'o \<Rightarrow> 'r maybe_reduced \<times> 's) \<Rightarrow> 'r \<Rightarrow> 's \<Rightarrow> 'r maybe_reduced \<times> 's"
where
  "reduceWithFunction [] f result s = (Plain result, s)"
| "reduceWithFunction (x # xs) f result s =
     (case f s result x of
        (Reduced r, s') \<Rightarrow> (Reduced r, s')
      | (Plain r, s') \<Rightarrow> reduceWithFunction xs f r s')"

text \<open>
  Modelled from the spec: the Driving Reducer of section 4.3 (core.ts is not among the
  sources). The source is a single-pass pull-sequence, here the list of the elements it
  still holds. Repeatedly pull the next input; if none remains, proceed to finish;
  otherwise call step; if the result is signaled, unwrap it and proceed to finish;
  otherwise continue with the new accumulator. \<open>pull_loop\<close> returns the accumulator, the
  state of the chain and what is left of the source.
\<close>

fun pull_loop ::
  "('s, 'r, 'c, 'i) transformer \<Rightarrow> 's \<Rightarrow> 'r \<Rightarrow> 'i list \<Rightarrow> 'r \<times> 's \<times> 'i list"
where
  "pull_loop xf s acc [] = (acc, s, [])"
| "pull_loop xf s acc (x # src) =
     (case transducer_step xf s acc x of
        (Reduced a, s') \<Rightarrow> (a, s', src)
      | (Plain a, s') \<Rightarrow> pull_loop xf s' a src)"

text \<open>
  Modelled from the spec: with no initial accumulator supplied, call the chain's
  initialize; on completion call finish exactly once and return its result (section 4.3).
  The result comes with the final state of the chain and the rest of the source.
\<close>

definition drive :: "('s, 'r, 'c, 'i) stage \<Rightarrow> 'i list \<Rightarrow> 'c \<times> 's \<times> 'i list" where
  "drive obj src =
     (case obj of (xf, s0) \<Rightarrow>
      case transducer_init xf s0 of (acc0, s1) \<Rightarrow>
      case pull_loop xf s1 acc0 src of (acc, s2, rest) \<Rightarrow>
      case transducer_result xf s2 acc of (c, s3) \<Rightarrow> (c, s3, rest))"

text \<open>
  The three parts of what \<open>drive\<close> returns: the result of the traversal, the state in
  which it leaves the chain, and the elements it left in the source.
\<close>

definition drive_output :: "('s, 'r, 'c, 'i) stage \<Rightarrow> 'i list \<Rightarrow> 'c" where
  "drive_output obj src = fst (drive obj src)"

definition final_state :: "('s, 'r, 'c, 'i) stage \<Rightarrow> 'i list \<Rightarrow> 's" where
  "final_state obj src = fst (snd (drive obj src))"

definition unpulled :: "('s, 'r, 'c, 'i) stage \<Rightarrow> 'i list \<Rightarrow> 'i list" where
  "unpulled obj src = snd (snd (drive obj src))"

text \<open>The number of elements the driver pulled from the source.\<close>

definition pulled :: "('s, 'r, 'c, 'i) stage \<Rightarrow> 'i list \<Rightarrow> nat" where
  "pulled obj src = length src - length (unpulled obj src)"

text \<open>
  The terminal transformer that the tests of \<^verbatim>\<open>reduce()\<close> declare (there named
  \<^verbatim>\<open>transformer\<close>) and that collects what reaches it: init is the empty array, step is
  \<^verbatim>\<open>aPush\<close>, result is the identity. It has no fields.
\<close>

definition aPush :: "'a list \<Rightarrow> 'a \<Rightarrow> 'a list" where
  "aPush array x = array @ [x]"

definition toArray :: "(unit, 'a list, 'a list, 'a) stage" where
  "toArray =
     (\<lparr>transducer_init = (\<lambda>s. ([], s)),
       transducer_result = (\<lambda>s x. (x, s)),
       transducer_step = (\<lambda>s array x. (Plain (aPush array x), s))\<rparr>, ())"

section \<open>The stage catalog (transducers.ts)\<close>

subsection \<open>updateValue\<close>

record 'r ValueWrapper =
  "value" :: 'r

definition updateValue ::
  "('r, 'm) ValueWrapper_scheme \<Rightarrow> 'r maybe_reduced \<Rightarrow> ('r, 'm) ValueWrapper_scheme maybe_reduced"
where
  "updateValue result newValue =
     (case newValue of
        Reduced v \<Rightarrow> reduced (result\<lparr>value := v\<rparr>)
      | Plain v \<Rightarrow> Plain (result\<lparr>value := v\<rparr>))"

subsection \<open>Dedupe\<close>

text \<open>
  \<^verbatim>\<open>last\<close> starts as a fresh object \<^verbatim>\<open>{}\<close> that the stage never hands out, so no
  input is \<^verbatim>\<open>===\<close> to it: it is \<open>None\<close> here, and an input \<open>x\<close> is \<open>Some x\<close>.
\<close>

record ('r, 'i) DedupeState = "'r ValueWrapper" +
  Dedupe_last :: "'i option"

definition Dedupe_init ::
  "('s, 'r, 'c, 'i) transformer \<Rightarrow> 's \<Rightarrow> ('r, 'i) DedupeState \<times> 's" where
  "Dedupe_init xf this =
     (case transducer_init xf this of
        (v, s') \<Rightarrow> (\<lparr>value = v, Dedupe_last = None\<rparr>, s'))"

definition Dedupe_result ::
  "('s, 'r, 'c, 'i) transformer \<Rightarrow> 's \<Rightarrow> ('r, 'i) DedupeState \<Rightarrow> 'c \<times> 's" where
  "Dedupe_result xf this result = transducer_result xf this (value result)"

definition Dedupe_step ::
  "('s, 'r, 'c, 'i) transformer \<Rightarrow> 's \<Rightarrow> ('r, 'i) DedupeState \<Rightarrow> 'i
    \<Rightarrow> ('r, 'i) DedupeState maybe_reduced \<times> 's" where
  "Dedupe_step xf this result input =
     (if Some input \<noteq> Dedupe_last result then
        let result1 = result\<lparr>Dedupe_last := Some input\<rparr> in
        case transducer_step xf this (value result1) input of
          (newValue, s') \<Rightarrow> (updateValue result1 newValue, s')
      else (Plain result, this))"

definition Dedupe ::
  "('s, 'r, 'c, 'i) transformer \<Rightarrow> ('s, ('r, 'i) DedupeState, 'c, 'i) transformer" where
  "Dedupe xf =
     \<lparr>transducer_init = Dedupe_init xf,
      transducer_result = Dedupe_result xf,
      transducer_step = Dedupe_step xf\<rparr>"

definition dedupe :: "('s, 'r, 'c, 'i) stage \<Rightarrow> ('s, ('r, 'i) DedupeState, 'c, 'i) stage" where
  "dedupe = (\<lambda>xf. (Dedupe (fst xf), snd xf))"

subsection \<open>Drop\<close>

record 's Drop_obj =
  Drop_i :: int
  Drop_xf :: 's

definition Drop_init ::
  "('s, 'r, 'c, 'i) transformer \<Rightarrow> int \<Rightarrow> 's Drop_obj \<Rightarrow> 'r \<times> 's Drop_obj" where
  "Drop_init xf n this =
     (case transducer_init xf (Drop_xf this) of (r, s') \<Rightarrow> (r, this\<lparr>Drop_xf := s'\<rparr>))"

definition Drop_result ::
  "('s, 'r, 'c, 'i) transformer \<Rightarrow> int \<Rightarrow> 's Drop_obj \<Rightarrow> 'r \<Rightarrow> 'c \<times> 's Drop_obj" where
  "Drop_result xf n this result =
     (case transducer_result xf (Drop_xf this) result of
        (c, s') \<Rightarrow> (c, this\<lparr>Drop_xf := s'\<rparr>))"

definition Drop_step ::
  "('s, 'r, 'c, 'i) transformer \<Rightarrow> int \<Rightarrow> 's Drop_obj \<Rightarrow> 'r \<Rightarrow> 'i
    \<Rightarrow> 'r maybe_reduced \<times> 's Drop_obj" where
  "Drop_step xf n this result input =
     (let i = Drop_i this;
          this1 = this\<lparr>Drop_i := i + 1\<rparr>
      in if i < n then (Plain result, this1)
         else case transducer_step xf (Drop_xf this1) result input of
                (r, s') \<Rightarrow> (r, this1\<lparr>Drop_xf := s'\<rparr>))"

definition Drop ::
  "('s, 'r, 'c, 'i) transformer \<Rightarrow> int \<Rightarrow> ('s Drop_obj, 'r, 'c, 'i) transformer" where
  "Drop xf n =
     \<lparr>transducer_init = Drop_init xf n,
      transducer_result = Drop_result xf n,
      transducer_step = Drop_step xf n\<rparr>"

definition drop_stage :: "int \<Rightarrow> ('s, 'r, 'c, 'i) stage \<Rightarrow> ('s Drop_obj, 'r, 'c, 'i) stage" where
  "drop_stage n = (\<lambda>xf. (Drop (fst xf) n, \<lparr>Drop_i = 0, Drop_xf = snd xf\<rparr>))"

subsection \<open>DropWhile\<close>

record 'r DropWhileState = "'r ValueWrapper" +
  isDoneDropping :: bool

definition DropWhile_init ::
  "('s, 'r, 'c, 'i) transformer \<Rightarrow> 's \<Rightarrow> 'r DropWhileState \<times> 's" where
  "DropWhile_init xf this =
     (case transducer_init xf this of
        (v, s') \<Rightarrow> (\<lparr>value = v, isDoneDropping = False\<rparr>, s'))"

definition DropWhile_result ::
  "('s, 'r, 'c, 'i) transformer \<Rightarrow> 's \<Rightarrow> 'r DropWhileState \<Rightarrow> 'c \<times> 's" where
  "DropWhile_result xf this result = transducer_result xf this (value result)"

definition DropWhile_step ::
  "('s, 'r, 'c, 'i) transformer \<Rightarrow> ('i \<Rightarrow> bool) \<Rightarrow> 's \<Rightarrow> 'r DropWhileState \<Rightarrow> 'i
    \<Rightarrow> 'r DropWhileState maybe_reduced \<times> 's" where
  "DropWhile_step xf pred this result input =
     (if isDoneDropping result then
        case transducer_step xf this (value result) input of
          (newValue, s') \<Rightarrow> (updateValue result newValue, s')
      else if pred input then (Plain result, this)
      else
        let result1 = result\<lparr>isDoneDropping := True\<rparr> in
        case transducer_step xf this (value result1) input of
          (newValue, s') \<Rightarrow> (updateValue result1 newValue, s'))"

definition DropWhile ::
  "('s, 'r, 'c, 'i) transformer \<Rightarrow> ('i \<Rightarrow> bool)
    \<Rightarrow> ('s, 'r DropWhileState, 'c, 'i) transformer" where
  "DropWhile xf pred =
     \<lparr>transducer_init = DropWhile_init xf,
      transducer_result = DropWhile_result xf,
      transducer_step = DropWhile_step xf pred\<rparr>"

definition dropWhile_stage ::
  "('i \<Rightarrow> bool) \<Rightarrow> ('s, 'r, 'c, 'i) stage \<Rightarrow> ('s, 'r DropWhileState, 'c, 'i) stage" where
  "dropWhile_stage pred = (\<lambda>xf. (DropWhile (fst xf) pred, snd xf))"

subsection \<open>Filter and remove\<close>

definition Filter_init :: "('s, 'r, 'c, 'i) transformer \<Rightarrow> 's \<Rightarrow> 'r \<times> 's" where
  "Filter_init xf this = transducer_init xf this"

definition Filter_result :: "('s, 'r, 'c, 'i) transformer \<Rightarrow> 's \<Rightarrow> 'r \<Rightarrow> 'c \<times> 's" where
  "Filter_result xf this result = transducer_result xf this result"

definition Filter_step ::
  "('s, 'r, 'c, 'i) transformer \<Rightarrow> ('i \<Rightarrow> bool) \<Rightarrow> 's \<Rightarrow> 'r \<Rightarrow> 'i \<Rightarrow> 'r maybe_reduced \<times> 's"
where
  "Filter_step xf pred this result input =
     (if pred input then transducer_step xf this result input else (Plain result, this))"

definition Filter ::
  "('s, 'r, 'c, 'i) transformer \<Rightarrow> ('i \<Rightarrow> bool) \<Rightarrow> ('s, 'r, 'c, 'i) transformer" where
  "Filter xf pred =
     \<lparr>transducer_init = Filter_init xf,
      transducer_result = Filter_result xf,
      transducer_step = Filter_step xf pred\<rparr>"

definition filter_stage ::
  "('i \<Rightarrow> bool) \<Rightarrow> ('s, 'r, 'c, 'i) stage \<Rightarrow> ('s, 'r, 'c, 'i) stage" where
  "filter_stage pred = (\<lambda>xf. (Filter (fst xf) pred, snd xf))"


subsection \<open>FlatMap\<close>

text \<open>
  The iterable \<^verbatim>\<open>f(input)\<close> is the finite list of its elements; \<^verbatim>\<open>this.step\<close> is the
  downstream step bound to the downstream object.
\<close>

definition FlatMap_init :: "('s, 'r, 'c, 'o) transformer \<Rightarrow> 's \<Rightarrow> 'r \<times> 's" where
  "FlatMap_init xf this = transducer_init xf this"

definition FlatMap_result :: "('s, 'r, 'c, 'o) transformer \<Rightarrow> 's \<Rightarrow> 'r \<Rightarrow> 'c \<times> 's" where
  "FlatMap_result xf this result = transducer_result xf this result"

definition FlatMap_step ::
  "('s, 'r, 'c, 'o) transformer \<Rightarrow> ('i \<Rightarrow> 'o list) \<Rightarrow> 's \<Rightarrow> 'r \<Rightarrow> 'i
    \<Rightarrow> 'r maybe_reduced \<times> 's" where
  "FlatMap_step xf f this result input =
     reduceWithFunction (f input) (transducer_step xf) result this"

definition FlatMap ::
  "('s, 'r, 'c, 'o) transformer \<Rightarrow> ('i \<Rightarrow> 'o list) \<Rightarrow> ('s, 'r, 'c, 'i) transformer" where
  "FlatMap xf f =
     \<lparr>transducer_init = FlatMap_init xf,
      transducer_result = FlatMap_result xf,
      transducer_step = FlatMap_step xf f\<rparr>"

definition flatMap ::
  "('i \<Rightarrow> 'o list) \<Rightarrow> ('s, 'r, 'c, 'o) stage \<Rightarrow> ('s, 'r, 'c, 'i) stage" where
  "flatMap f = (\<lambda>xf. (FlatMap (fst xf) f, snd xf))"

subsection \<open>Interpose\<close>

record 's Interpose_obj =
  isStarted :: bool
  Interpose_xf :: 's

definition Interpose_init ::
  "('s, 'r, 'c, 'i) transformer \<Rightarrow> 's Interpose_obj \<Rightarrow> 'r \<times> 's Interpose_obj" where
  "Interpose_init xf this =
     (case transducer_init xf (Interpose_xf this) of
        (r, s') \<Rightarrow> (r, this\<lparr>Interpose_xf := s'\<rparr>))"

definition Interpose_result ::
  "('s, 'r, 'c, 'i) transformer \<Rightarrow> 's Interpose_obj \<Rightarrow> 'r \<Rightarrow> 'c \<times> 's Interpose_obj" where
  "Interpose_result xf this result =
     (case transducer_result xf (Interpose_xf this) result of
        (c, s') \<Rightarrow> (c, this\<lparr>Interpose_xf := s'\<rparr>))"

definition Interpose_step ::
  "('s, 'r, 'c, 'i) transformer \<Rightarrow> 'i \<Rightarrow> 's Interpose_obj \<Rightarrow> 'r \<Rightarrow> 'i
    \<Rightarrow> 'r maybe_reduced \<times> 's Interpose_obj" where
  "Interpose_step xf separator this result input =
     (if isStarted this then
        case transducer_step xf (Interpose_xf this) result separator of
          (withSeparator, s') \<Rightarrow>
            if isReduced withSeparator then (withSeparator, this\<lparr>Interpose_xf := s'\<rparr>)
            else
              case transducer_step xf s' (unreduced withSeparator) input of
                (r, s'') \<Rightarrow> (r, this\<lparr>Interpose_xf := s''\<rparr>)
      else
        let this1 = this\<lparr>isStarted := True\<rparr> in
        case transducer_step xf (Interpose_xf this1) result input of
          (r, s') \<Rightarrow> (r, this1\<lparr>Interpose_xf := s'\<rparr>))"

definition Interpose ::
  "('s, 'r, 'c, 'i) transformer \<Rightarrow> 'i \<Rightarrow> ('s Interpose_obj, 'r, 'c, 'i) transformer" where
  "Interpose xf separator =
     \<lparr>transducer_init = Interpose_init xf,
      transducer_result = Interpose_result xf,
      transducer_step = Interpose_step xf separator\<rparr>"

definition interpose ::
  "'i \<Rightarrow> ('s, 'r, 'c, 'i) stage \<Rightarrow> ('s Interpose_obj, 'r, 'c, 'i) stage" where
  "interpose separator =
     (\<lambda>xf. (Interpose (fst xf) separator, \<lparr>isStarted = False, Interpose_xf = snd xf\<rparr>))"

subsection \<open>MapTransformer\<close>






subsection \<open>PartitionAll\<close>

datatype error = Error string

record ('s, 'i) PartitionAll_obj =
  PartitionAll_buffer :: "'i list"
  PartitionAll_xf :: 's

definition PartitionAll_init ::
  "('s, 'r, 'c, 'i list) transformer \<Rightarrow> ('s, 'i) PartitionAll_obj
    \<Rightarrow> 'r \<times> ('s, 'i) PartitionAll_obj" where
  "PartitionAll_init xf this =
     (case transducer_init xf (PartitionAll_xf this) of
        (r, s') \<Rightarrow> (r, this\<lparr>PartitionAll_xf := s'\<rparr>))"

definition PartitionAll_result ::
  "('s, 'r, 'c, 'i list) transformer \<Rightarrow> ('s, 'i) PartitionAll_obj \<Rightarrow> 'r
    \<Rightarrow> 'c \<times> ('s, 'i) PartitionAll_obj" where
  "PartitionAll_result xf this result =
     (case
        (if length (PartitionAll_buffer this) > 0 then
           case transducer_step xf (PartitionAll_xf this) result (PartitionAll_buffer this) of
             (r, s') \<Rightarrow> (unreduced r, this\<lparr>PartitionAll_xf := s', PartitionAll_buffer := []\<rparr>)
         else (result, this))
      of (result1, this1) \<Rightarrow>
        case transducer_result xf (PartitionAll_xf this1) result1 of
          (c, s'') \<Rightarrow> (c, this1\<lparr>PartitionAll_xf := s''\<rparr>))"

definition PartitionAll_step ::
  "('s, 'r, 'c, 'i list) transformer \<Rightarrow> int \<Rightarrow> ('s, 'i) PartitionAll_obj \<Rightarrow> 'r \<Rightarrow> 'i
    \<Rightarrow> 'r maybe_reduced \<times> ('s, 'i) PartitionAll_obj" where
  "PartitionAll_step xf n this result input =
     (let this1 = this\<lparr>PartitionAll_buffer := PartitionAll_buffer this @ [input]\<rparr> in
      if int (length (PartitionAll_buffer this1)) = n then
        case transducer_step xf (PartitionAll_xf this1) result (PartitionAll_buffer this1) of
          (newResult, s') \<Rightarrow>
            (newResult, this1\<lparr>PartitionAll_xf := s', PartitionAll_buffer := []\<rparr>)
      else (Plain result, this1))"

definition PartitionAll ::
  "('s, 'r, 'c, 'i list) transformer \<Rightarrow> int
    \<Rightarrow> (('s, 'i) PartitionAll_obj, 'r, 'c, 'i) transformer" where
  "PartitionAll xf n =
     \<lparr>transducer_init = PartitionAll_init xf,
      transducer_result = PartitionAll_result xf,
      transducer_step = PartitionAll_step xf n\<rparr>"

text \<open>\<^verbatim>\<open>new PartitionAll(xf, n)\<close>: the buffer field starts as the empty array.\<close>

definition new_PartitionAll ::
  "('s, 'r, 'c, 'i list) stage \<Rightarrow> int \<Rightarrow> (('s, 'i) PartitionAll_obj, 'r, 'c, 'i) stage" where
  "new_PartitionAll xf n =
     (PartitionAll (fst xf) n, \<lparr>PartitionAll_buffer = [], PartitionAll_xf = snd xf\<rparr>)"

text \<open>The factory throws before it returns the transducer: the throw is \<open>Inl\<close>.\<close>

definition partitionAll ::
  "int \<Rightarrow> error + (('s, 'r, 'c, 'i list) stage \<Rightarrow> (('s, 'i) PartitionAll_obj, 'r, 'c, 'i) stage)"
where
  "partitionAll n =
     (if n = 0 then Inl (Error ''Size in partitionAll() cannot be 0'')
      else if n < 0 then Inl (Error ''Size in partitionAll() cannot be negative'')
      else Inr (\<lambda>xf. new_PartitionAll xf n))"

subsection \<open>PartitionBy\<close>

text \<open>
  \<^verbatim>\<open>INITIAL_LAST_KEY\<close> is an object \<^verbatim>\<open>{}\<close> private to the module, so no key that
  \<^verbatim>\<open>f\<close> returns is \<^verbatim>\<open>===\<close> to it: it is \<open>None\<close> here, and a key \<open>k\<close> is \<open>Some k\<close>.
\<close>

record ('r, 'i, 'k) PartitionByState = "'r ValueWrapper" +
  PartitionBy_buffer :: "'i list"
  lastKey :: "'k option"

definition INITIAL_LAST_KEY :: "'k option" where
  "INITIAL_LAST_KEY = None"

text \<open>
  An assignment to the object \<^verbatim>\<open>unreduced(newResult)\<close>: the object is updated in place,
  inside the wrapper when there is one.
\<close>

definition assign_unreduced :: "('a \<Rightarrow> 'a) \<Rightarrow> 'a maybe_reduced \<Rightarrow> 'a maybe_reduced" where
  "assign_unreduced g newResult =
     (case newResult of Reduced r \<Rightarrow> Reduced (g r) | Plain r \<Rightarrow> Plain (g r))"

definition PartitionBy_init ::
  "('s, 'r, 'c, 'i list) transformer \<Rightarrow> 's \<Rightarrow> ('r, 'i, 'k) PartitionByState \<times> 's" where
  "PartitionBy_init xf this =
     (case transducer_init xf this of
        (v, s') \<Rightarrow>
          (\<lparr>value = v, PartitionBy_buffer = [], lastKey = INITIAL_LAST_KEY\<rparr>, s'))"

definition PartitionBy_result ::
  "('s, 'r, 'c, 'i list) transformer \<Rightarrow> 's \<Rightarrow> ('r, 'i, 'k) PartitionByState \<Rightarrow> 'c \<times> 's" where
  "PartitionBy_result xf this result =
     (case
        (if length (PartitionBy_buffer result) > 0 then
           case transducer_step xf this (value result) (PartitionBy_buffer result) of
             (r, s') \<Rightarrow> (result\<lparr>value := unreduced r, PartitionBy_buffer := []\<rparr>, s')
         else (result, this))
      of (result1, s1) \<Rightarrow> transducer_result xf s1 (value result1))"

definition PartitionBy_step ::
  "('s, 'r, 'c, 'i list) transformer \<Rightarrow> ('i \<Rightarrow> 'k) \<Rightarrow> 's \<Rightarrow> ('r, 'i, 'k) PartitionByState
    \<Rightarrow> 'i \<Rightarrow> ('r, 'i, 'k) PartitionByState maybe_reduced \<times> 's" where
  "PartitionBy_step xf f this result input =
     (let key = f input;
          value0 = value result;
          buffer0 = PartitionBy_buffer result;
          lastKey0 = lastKey result;
          result1 = result\<lparr>lastKey := Some key\<rparr>
      in case
           (if lastKey0 = INITIAL_LAST_KEY \<or> lastKey0 = Some key then (Plain result1, this)
            else
              case transducer_step xf this value0 buffer0 of
                (newValue, s') \<Rightarrow>
                  (assign_unreduced (\<lambda>r. r\<lparr>PartitionBy_buffer := []\<rparr>)
                     (updateValue result1 newValue), s'))
         of (newResult, s1) \<Rightarrow>
           (assign_unreduced
              (\<lambda>r. r\<lparr>PartitionBy_buffer := PartitionBy_buffer r @ [input]\<rparr>) newResult, s1))"

definition PartitionBy ::
  "('s, 'r, 'c, 'i list) transformer \<Rightarrow> ('i \<Rightarrow> 'k)
    \<Rightarrow> ('s, ('r, 'i, 'k) PartitionByState, 'c, 'i) transformer" where
  "PartitionBy xf f =
     \<lparr>transducer_init = PartitionBy_init xf,
      transducer_result = PartitionBy_result xf,
      transducer_step = PartitionBy_step xf f\<rparr>"

definition partitionBy ::
  "('i \<Rightarrow> 'k) \<Rightarrow> ('s, 'r, 'c, 'i list) stage
    \<Rightarrow> ('s, ('r, 'i, 'k) PartitionByState, 'c, 'i) stage" where
  "partitionBy f = (\<lambda>xf. (PartitionBy (fst xf) f, snd xf))"

subsection \<open>Take\<close>

record 's Take_obj =
  Take_i :: int
  Take_xf :: 's

definition Take_init ::
  "('s, 'r, 'c, 'i) transformer \<Rightarrow> int \<Rightarrow> 's Take_obj \<Rightarrow> 'r \<times> 's Take_obj" where
  "Take_init xf n this =
     (case transducer_init xf (Take_xf this) of (r, s') \<Rightarrow> (r, this\<lparr>Take_xf := s'\<rparr>))"

definition Take_result ::
  "('s, 'r, 'c, 'i) transformer \<Rightarrow> int \<Rightarrow> 's Take_obj \<Rightarrow> 'r \<Rightarrow> 'c \<times> 's Take_obj" where
  "Take_result xf n this result =
     (case transducer_result xf (Take_xf this) result of
        (c, s') \<Rightarrow> (c, this\<lparr>Take_xf := s'\<rparr>))"

definition Take_step ::
  "('s, 'r, 'c, 'i) transformer \<Rightarrow> int \<Rightarrow> 's Take_obj \<Rightarrow> 'r \<Rightarrow> 'i
    \<Rightarrow> 'r maybe_reduced \<times> 's Take_obj" where
  "Take_step xf n this result input =
     (if n \<le> 0 then (reduced result, this)
      else
        case transducer_step xf (Take_xf this) result input of (next, s') \<Rightarrow>
          let i = Take_i this;
              this' = this\<lparr>Take_xf := s', Take_i := i + 1\<rparr>
          in ((if i < n - 1 then next else ensureReduced next), this'))"

definition Take ::
  "('s, 'r, 'c, 'i) transformer \<Rightarrow> int \<Rightarrow> ('s Take_obj, 'r, 'c, 'i) transformer" where
  "Take xf n =
     \<lparr>transducer_init = Take_init xf n,
      transducer_result = Take_result xf n,
      transducer_step = Take_step xf n\<rparr>"

definition take_stage :: "int \<Rightarrow> ('s, 'r, 'c, 'i) stage \<Rightarrow> ('s Take_obj, 'r, 'c, 'i) stage" where
  "take_stage n = (\<lambda>xf. (Take (fst xf) n, \<lparr>Take_i = 0, Take_xf = snd xf\<rparr>))"

subsection \<open>TakeNth\<close>

text \<open>
  \<^verbatim>\<open>i % this.n === 0\<close>: the counter is never negative, so for \<open>n \<noteq> 0\<close> the remainder is
  zero exactly when \<open>i mod n = 0\<close>; for \<open>n = 0\<close> the remainder is NaN and the test fails.
\<close>

record 'r TakeNthState = "'r ValueWrapper" +
  TakeNth_i :: int

definition TakeNth_init ::
  "('s, 'r, 'c, 'i) transformer \<Rightarrow> 's \<Rightarrow> 'r TakeNthState \<times> 's" where
  "TakeNth_init xf this =
     (case transducer_init xf this of (v, s') \<Rightarrow> (\<lparr>value = v, TakeNth_i = 0\<rparr>, s'))"

definition TakeNth_result ::
  "('s, 'r, 'c, 'i) transformer \<Rightarrow> 's \<Rightarrow> 'r TakeNthState \<Rightarrow> 'c \<times> 's" where
  "TakeNth_result xf this result = transducer_result xf this (value result)"

definition TakeNth_step ::
  "('s, 'r, 'c, 'i) transformer \<Rightarrow> int \<Rightarrow> 's \<Rightarrow> 'r TakeNthState \<Rightarrow> 'i
    \<Rightarrow> 'r TakeNthState maybe_reduced \<times> 's" where
  "TakeNth_step xf n this result input =
     (let i = TakeNth_i result;
          result1 = result\<lparr>TakeNth_i := i + 1\<rparr>
      in if n \<noteq> 0 \<and> i mod n = 0 then
           case transducer_step xf this (value result1) input of
             (newValue, s') \<Rightarrow> (updateValue result1 newValue, s')
         else (Plain result1, this))"

definition TakeNth ::
  "('s, 'r, 'c, 'i) transformer \<Rightarrow> int \<Rightarrow> ('s, 'r TakeNthState, 'c, 'i) transformer" where
  "TakeNth xf n =
     \<lparr>transducer_init = TakeNth_init xf,
      transducer_result = TakeNth_result xf,
      transducer_step = TakeNth_step xf n\<rparr>"

definition new_TakeNth ::
  "('s, 'r, 'c, 'i) stage \<Rightarrow> int \<Rightarrow> ('s, 'r TakeNthState, 'c, 'i) stage" where
  "new_TakeNth xf n = (TakeNth (fst xf) n, snd xf)"

definition takeNth ::
  "int \<Rightarrow> error + (('s, 'r, 'c, 'i) stage \<Rightarrow> ('s, 'r TakeNthState, 'c, 'i) stage)" where
  "takeNth n =
     (if n = 0 then Inl (Error ''Step in takeNth() cannot be 0'')
      else if n < 0 then Inl (Error ''Step in takeNth() cannot be negative'')
      else Inr (\<lambda>xf. new_TakeNth xf n))"

subsection \<open>TakeWhile\<close>

definition TakeWhile_init :: "('s, 'r, 'c, 'i) transformer \<Rightarrow> 's \<Rightarrow> 'r \<times> 's" where
  "TakeWhile_init xf this = transducer_init xf this"

definition TakeWhile_result :: "('s, 'r, 'c, 'i) transformer \<Rightarrow> 's \<Rightarrow> 'r \<Rightarrow> 'c \<times> 's" where
  "TakeWhile_result xf this result = transducer_result xf this result"

definition TakeWhile_step ::
  "('s, 'r, 'c, 'i) transformer \<Rightarrow> ('i \<Rightarrow> bool) \<Rightarrow> 's \<Rightarrow> 'r \<Rightarrow> 'i \<Rightarrow> 'r maybe_reduced \<times> 's"
where
  "TakeWhile_step xf pred this result input =
     (if pred input then transducer_step xf this result input else (reduced result, this))"

definition TakeWhile ::
  "('s, 'r, 'c, 'i) transformer \<Rightarrow> ('i \<Rightarrow> bool) \<Rightarrow> ('s, 'r, 'c, 'i) transformer" where
  "TakeWhile xf pred =
     \<lparr>transducer_init = TakeWhile_init xf,
      transducer_result = TakeWhile_result xf,
      transducer_step = TakeWhile_step xf pred\<rparr>"

definition takeWhile_stage ::
  "('i \<Rightarrow> bool) \<Rightarrow> ('s, 'r, 'c, 'i) stage \<Rightarrow> ('s, 'r, 'c, 'i) stage" where
  "takeWhile_stage pred = (\<lambda>xf. (TakeWhile (fst xf) pred, snd xf))"

section \<open>Observing the downstream calls\<close>

text \<open>
  To state which calls a stage makes into its downstream transformer, the downstream
  transformer is wrapped in an observer: \<open>spy xf\<close> behaves as \<open>xf\<close> and appends every call
  of its step, the input together with the result returned, to the field \<open>calls\<close>.
\<close>

record ('s, 'o, 'r) spy_obj =
  calls :: "('o \<times> 'r maybe_reduced) list"
  spied :: 's

definition spy ::
  "('s, 'r, 'c, 'o) transformer \<Rightarrow> (('s, 'o, 'r) spy_obj, 'r, 'c, 'o) transformer" where
  "spy xf =
     \<lparr>transducer_init =
        (\<lambda>this. case transducer_init xf (spied this) of
                  (r, s') \<Rightarrow> (r, this\<lparr>spied := s'\<rparr>)),
      transducer_result =
        (\<lambda>this result. case transducer_result xf (spied this) result of
                  (c, s') \<Rightarrow> (c, this\<lparr>spied := s'\<rparr>)),
      transducer_step =
        (\<lambda>this result input. case transducer_step xf (spied this) result input of
                  (r, s') \<Rightarrow> (r, \<lparr>calls = calls this @ [(input, r)], spied = s'\<rparr>))\<rparr>"

definition spy_on ::
  "('s, 'r, 'c, 'o) stage \<Rightarrow> (('s, 'o, 'r) spy_obj, 'r, 'c, 'o) stage" where
  "spy_on xf = (spy (fst xf), \<lparr>calls = [], spied = snd xf\<rparr>)"




section \<open>What the stages are to compute\<close>

text \<open>
  The index of the first element at which the predicate fails (the length of the
  list when it never fails).
\<close>

fun first_failing :: "('a \<Rightarrow> bool) \<Rightarrow> 'a list \<Rightarrow> nat" where
  "first_failing pred [] = 0"
| "first_failing pred (x # xs) = (if pred x then Suc (first_failing pred xs) else 0)"

text \<open>
  The elements that differ from the input immediately before them; \<open>prev\<close> is that
  input, \<open>None\<close> before the first element.
\<close>

fun differing :: "'a option \<Rightarrow> 'a list \<Rightarrow> 'a list" where
  "differing prev [] = []"
| "differing prev (x # xs) =
     (if Some x \<noteq> prev then x # differing (Some x) xs else differing (Some x) xs)"

text \<open>
  The separator before every element: \<open>separated sep xs\<close> is what follows the first
  input when \<open>xs\<close> are the later ones.
\<close>

fun separated :: "'a \<Rightarrow> 'a list \<Rightarrow> 'a list" where
  "separated sep [] = []"
| "separated sep (x # xs) = sep # x # separated sep xs"

text \<open>
  Consecutive elements with equal keys, grouped: \<open>b\<close> is the group being collected.
\<close>

fun key_runs :: "('a \<Rightarrow> 'k) \<Rightarrow> 'a list \<Rightarrow> 'a list \<Rightarrow> 'a list list" where
  "key_runs f b [] = (if b = [] then [] else [b])"
| "key_runs f b (x # xs) =
     (if b = [] \<or> f (last b) = f x then key_runs f (b @ [x]) xs
      else b # key_runs f [x] xs)"

text \<open>Every group but the last differs in key from the group after it.\<close>

fun key_changes :: "('a \<Rightarrow> 'k) \<Rightarrow> 'a list list \<Rightarrow> bool" where
  "key_changes f (g # h # gs) = (f (last g) \<noteq> f (hd h) \<and> key_changes f (h # gs))"
| "key_changes f gs = True"

section \<open>Properties\<close>

subsection \<open>The driver\<close>

lemma drive_eq:
  "transducer_init xf s0 = (acc0, s1) \<Longrightarrow> pull_loop xf s1 acc0 src = (acc, s2, rest) \<Longrightarrow>
   transducer_result xf s2 acc = (c, s3) \<Longrightarrow> drive (xf, s0) src = (c, s3, rest)"
  by (simp add: drive_def)

lemma drive_output_proj:
  "drive_output (xf, s0) src =
     (let i = transducer_init xf s0; l = pull_loop xf (snd i) (fst i) src
      in fst (transducer_result xf (fst (snd l)) (fst l)))"
  by (simp add: drive_output_def drive_def split: prod.splits)

lemma drive_output_eq:
  "transducer_init xf s0 = (acc0, s1) \<Longrightarrow>
   drive_output (xf, s0) src
     = fst (transducer_result xf (fst (snd (pull_loop xf s1 acc0 src)))
              (fst (pull_loop xf s1 acc0 src)))"
  by (simp add: drive_output_def drive_def split: prod.splits)

lemma pull_loop_rest_le: "length (snd (snd (pull_loop xf s acc src))) \<le> length src"
  by (induction src arbitrary: s acc) (auto split: prod.splits maybe_reduced.splits intro: le_SucI)

lemma final_state_proj:
  "final_state (xf, s0) src =
     (let i = transducer_init xf s0; l = pull_loop xf (snd i) (fst i) src
      in snd (transducer_result xf (fst (snd l)) (fst l)))"
  by (simp add: final_state_def drive_def split: prod.splits)

lemma unpulled_proj:
  "unpulled (xf, s0) src =
     (let i = transducer_init xf s0 in snd (snd (pull_loop xf (snd i) (fst i) src)))"
  by (simp add: unpulled_def drive_def split: prod.splits)

lemma pull_loop_rest_lt:
  "length (snd (snd (pull_loop xf s acc (x # src)))) \<le> length src"
proof (cases "transducer_step xf s acc x")
  case (Pair r s')
  show ?thesis
  proof (cases r)
    case (Plain a)
    then show ?thesis using Pair pull_loop_rest_le[of xf s' a src] by simp
  next
    case (Reduced a)
    then show ?thesis using Pair by simp
  qed
qed

lemma pulled_pos: "src \<noteq> [] \<Longrightarrow> 1 \<le> pulled obj src"
proof -
  assume "src \<noteq> []"
  then obtain x xs where src: "src = x # xs" by (cases src) auto
  obtain xf s0 where obj: "obj = (xf, s0)" by (cases obj)
  show ?thesis
    using pull_loop_rest_lt[of xf "snd (transducer_init xf s0)" "fst (transducer_init xf s0)" x xs]
    by (simp add: pulled_def obj unpulled_proj src Let_def)
qed

subsection \<open>take\<close>

lemma Take_loop_nonpos:
  "n \<le> 0 \<Longrightarrow> pull_loop (Take xf n) this acc (x # src) = (acc, this, src)"
  by (simp add: Take_def Take_step_def reduced_def)











subsection \<open>partitionAll and takeNth: the factories\<close>

text \<open>
  Claim C5. The factories \<open>partitionAll\<close> and \<open>takeNth\<close> throw when \<open>n\<close> is zero or
  negative: the error is the value of the factory applied to \<open>n\<close> alone, before it is given
  any downstream stage and before any input. For \<open>n \<ge> 1\<close> the factory returns the
  transducer that constructs the stage; the methods of the stage have no throw.
\<close>

theorem degenerate_configuration:
  "(n = 0 \<longrightarrow> partitionAll n = Inl (Error ''Size in partitionAll() cannot be 0'')
             \<and> takeNth n = Inl (Error ''Step in takeNth() cannot be 0''))
   \<and> (n < 0 \<longrightarrow> partitionAll n = Inl (Error ''Size in partitionAll() cannot be negative'')
             \<and> takeNth n = Inl (Error ''Step in takeNth() cannot be negative''))
   \<and> (1 \<le> n \<longrightarrow> partitionAll n = Inr (\<lambda>xf. new_PartitionAll xf n)
             \<and> takeNth n = Inr (\<lambda>xf. new_TakeNth xf n))"
  by (simp add: partitionAll_def takeNth_def)

text \<open>The theorem at 0, at -3 and at 2, where the constructed stages run.\<close>

theorem degenerate_configuration_witness:
  "(case partitionAll 0 of
      Inl e \<Rightarrow> e = Error ''Size in partitionAll() cannot be 0''
    | Inr t \<Rightarrow> drive_output (t toArray) [1 :: int] = [])
   \<and> (case takeNth 0 of
         Inl e \<Rightarrow> e = Error ''Step in takeNth() cannot be 0''
       | Inr t \<Rightarrow> drive_output (t toArray) [1 :: int] = [])
   \<and> (case partitionAll (- 3) of
         Inl e \<Rightarrow> e = Error ''Size in partitionAll() cannot be negative''
       | Inr t \<Rightarrow> drive_output (t toArray) [1 :: int] = [])
   \<and> (case takeNth (- 3) of
         Inl e \<Rightarrow> e = Error ''Step in takeNth() cannot be negative''
       | Inr t \<Rightarrow> drive_output (t toArray) [1 :: int] = [])
   \<and> (case partitionAll 2 of
         Inl e \<Rightarrow> False
       | Inr t \<Rightarrow> drive_output (t toArray) [1, 2, 3, 4, 5 :: int] = [[1, 2], [3, 4], [5]])
   \<and> (case takeNth 2 of
         Inl e \<Rightarrow> False
       | Inr t \<Rightarrow> drive_output (t toArray) [1, 2, 3, 4, 5 :: int] = [1, 3, 5])"
  by (simp add: degenerate_configuration[of 0, simplified]
        degenerate_configuration[of "- 3", simplified]
        degenerate_configuration[of 2, simplified] drive_output_def drive_def
        new_PartitionAll_def PartitionAll_def
        PartitionAll_init_def PartitionAll_result_def PartitionAll_step_def
        new_TakeNth_def TakeNth_def TakeNth_init_def TakeNth_result_def TakeNth_step_def
        updateValue_def toArray_def aPush_def Let_def)

subsection \<open>takeWhile and dropWhile\<close>

lemma TakeWhile_loop:
  "fst (pull_loop (TakeWhile (fst toArray) pred) () acc src) = acc @ takeWhile pred src"
  by (induction src arbitrary: acc)
     (simp_all add: TakeWhile_def TakeWhile_step_def toArray_def aPush_def reduced_def)

lemma DropWhile_loop:
  "value (fst (pull_loop (DropWhile (fst toArray) pred) () result src))
     = value result @ (if isDoneDropping result then src else dropWhile pred src)"
  by (induction src arbitrary: result)
     (simp_all add: DropWhile_def DropWhile_step_def toArray_def aPush_def updateValue_def)

lemma takeWhile_output: "drive_output (takeWhile_stage pred toArray) src = takeWhile pred src"
  using TakeWhile_loop[of pred "[]" src]
  by (simp add: drive_output_proj takeWhile_stage_def toArray_def)
     (simp add: TakeWhile_def TakeWhile_init_def TakeWhile_result_def)

lemma dropWhile_output: "drive_output (dropWhile_stage pred toArray) src = dropWhile pred src"
  using DropWhile_loop[of pred "\<lparr>value = [], isDoneDropping = False\<rparr>" src]
  by (simp add: drive_output_proj dropWhile_stage_def toArray_def)
     (simp add: DropWhile_def DropWhile_init_def DropWhile_result_def)

lemma first_failing_length: "first_failing pred xs = length (takeWhile pred xs)"
  by (induction xs) simp_all

lemma first_failing_boundary:
  "first_failing pred xs \<le> length xs
   \<and> (\<forall>j < first_failing pred xs. pred (xs ! j))
   \<and> (first_failing pred xs < length xs \<longrightarrow> \<not> pred (xs ! first_failing pred xs))"
proof (induction xs)
  case Nil
  then show ?case by simp
next
  case (Cons x xs)
  then show ?case by (auto simp: nth_Cons split: nat.splits)
qed

text \<open>
  Claim C8. For every predicate and every input, the output of \<open>takeWhile\<close> followed by
  the output of \<open>dropWhile\<close> over the same input is the input: with \<open>k\<close> the first index at
  which the predicate fails (the length of the input if it never fails), \<open>takeWhile\<close>
  yields the elements before \<open>k\<close>, without the failing element, and \<open>dropWhile\<close> the
  elements from \<open>k\<close> on, the failing element included.
\<close>

theorem takeWhile_dropWhile_partition:
  "drive_output (takeWhile_stage pred toArray) src
     @ drive_output (dropWhile_stage pred toArray) src = src
   \<and> drive_output (takeWhile_stage pred toArray) src = take (first_failing pred src) src
   \<and> drive_output (dropWhile_stage pred toArray) src = drop (first_failing pred src) src
   \<and> first_failing pred src \<le> length src
   \<and> (\<forall>j < first_failing pred src. pred (src ! j))
   \<and> (first_failing pred src < length src \<longrightarrow> \<not> pred (src ! first_failing pred src))"
proof -
  have "takeWhile pred src = take (first_failing pred src) src"
    unfolding first_failing_length by (rule takeWhile_eq_take)
  moreover have "dropWhile pred src = drop (first_failing pred src) src"
    unfolding first_failing_length by (rule dropWhile_eq_drop)
  ultimately show ?thesis
    using first_failing_boundary[of pred src]
    by (simp add: takeWhile_output dropWhile_output)
qed

text \<open>The theorem at the predicate \<open>n < 3\<close> over 1..5, as in the tests.\<close>

theorem takeWhile_dropWhile_partition_witness:
  "drive_output (takeWhile_stage (\<lambda>n. n < 3) toArray) [1, 2, 3, 4, 5 :: int] = [1, 2]
   \<and> drive_output (dropWhile_stage (\<lambda>n. n < 3) toArray) [1, 2, 3, 4, 5 :: int] = [3, 4, 5]
   \<and> first_failing (\<lambda>n. n < 3) [1, 2, 3, 4, 5 :: int] = 2
   \<and> \<not> ([1, 2, 3, 4, 5 :: int] ! 2 < 3)"
  using takeWhile_dropWhile_partition[of "\<lambda>n. n < 3" "[1, 2, 3, 4, 5 :: int]"]
  by simp

subsection \<open>dedupe\<close>

lemma Dedupe_loop:
  "value (fst (pull_loop (Dedupe (fst toArray)) () result src))
     = value result @ differing (Dedupe_last result) src"
proof (induction src arbitrary: result)
  case Nil
  then show ?case by simp
next
  case (Cons x src)
  show ?case
  proof (cases "Some x \<noteq> Dedupe_last result")
    case True
    then show ?thesis
      using Cons.IH[of "result\<lparr>Dedupe_last := Some x, value := value result @ [x]\<rparr>"]
      by (simp add: Dedupe_def Dedupe_step_def toArray_def aPush_def updateValue_def)
  next
    case False
    then show ?thesis
      using Cons.IH[of result]
      by (simp add: Dedupe_def Dedupe_step_def toArray_def aPush_def updateValue_def)
  qed
qed

lemma dedupe_output: "drive_output (dedupe toArray) src = differing None src"
  using Dedupe_loop[of "\<lparr>value = [], Dedupe_last = None\<rparr>" src]
  by (simp add: drive_output_proj dedupe_def toArray_def)
     (simp add: Dedupe_def Dedupe_init_def Dedupe_result_def)

lemma Dedupe_step_calls:
  "calls (snd (Dedupe_step (spy xf) this result input))
     = calls this @
       (if Some input \<noteq> Dedupe_last result
        then [(input, fst (transducer_step xf (spied this) (value result) input))] else [])"
  by (simp add: Dedupe_step_def spy_def split: prod.splits)

lemma Dedupe_step_last:
  "Dedupe_last (unreduced (fst (Dedupe_step xf this result input)))
     = (if Some input \<noteq> Dedupe_last result then Some input else Dedupe_last result)"
  by (simp add: Dedupe_step_def updateValue_def reduced_def Let_def
        split: prod.splits maybe_reduced.splits)

text \<open>
  Claim C7. Over every input, \<open>dedupe\<close> passes downstream exactly the elements that differ
  (by the equality of the element type, which stands for \<^verbatim>\<open>===\<close>) from the input
  immediately before them. A step calls the downstream step, once and with its input, if
  and only if the input differs from \<open>last\<close>, and then records the input as the new
  \<open>last\<close>. The marker that init stores in \<open>last\<close> is different from every input, so the
  first element always passes. 1,2,2,3,3,3 yields 1,2,3 and 1,2,1 yields 1,2,1.
\<close>

theorem dedupe_consecutive:
  "drive_output (dedupe toArray) src = differing None src
   \<and> Dedupe_last (fst (Dedupe_init xf this)) = None
   \<and> Some input \<noteq> Dedupe_last (fst (Dedupe_init xf this))
   \<and> calls (snd (Dedupe_step (spy xf) this' result input))
        = calls this' @
          (if Some input \<noteq> Dedupe_last result
           then [(input, fst (transducer_step xf (spied this') (value result) input))]
           else [])
   \<and> Dedupe_last (unreduced (fst (Dedupe_step xf this result input)))
        = (if Some input \<noteq> Dedupe_last result then Some input else Dedupe_last result)
   \<and> drive_output (dedupe toArray) [1, 2, 2, 3, 3, 3 :: int] = [1, 2, 3]
   \<and> drive_output (dedupe toArray) [1, 2, 1 :: int] = [1, 2, 1]"
proof -
  have "Dedupe_last (fst (Dedupe_init xf this)) = None"
    by (simp add: Dedupe_init_def split: prod.splits)
  then show ?thesis
    by (simp add: dedupe_output Dedupe_step_calls Dedupe_step_last)
qed

text \<open>The calls that reach the downstream transformer over 1,2,2,3,3,3, and a second run.\<close>

theorem dedupe_consecutive_witness:
  "calls (final_state (dedupe (spy_on toArray)) [1, 2, 2, 3, 3, 3 :: int])
     = [(1, Plain [1]), (2, Plain [1, 2]), (3, Plain [1, 2, 3])]
   \<and> differing None [5, 5, 7 :: int] = [5, 7]
   \<and> drive_output (dedupe toArray) [5, 5, 7 :: int] = [5, 7]"
  using dedupe_consecutive[of "[5, 5, 7 :: int]", THEN conjunct1]
  by (simp add: final_state_def drive_def dedupe_def Dedupe_def Dedupe_init_def Dedupe_result_def
        Dedupe_step_def updateValue_def spy_on_def spy_def toArray_def aPush_def)

subsection \<open>interpose\<close>

lemma Interpose_loop:
  "fst (pull_loop (Interpose (fst toArray) sep) \<lparr>isStarted = True, Interpose_xf = ()\<rparr> acc src)
     = acc @ separated sep src"
  by (induction src arbitrary: acc)
     (simp_all add: Interpose_def Interpose_step_def toArray_def aPush_def)

lemma interpose_output:
  "drive_output (interpose sep toArray) src = (case src of [] \<Rightarrow> [] | x # xs \<Rightarrow> x # separated sep xs)"
proof (cases src)
  case Nil
  then show ?thesis
    by (simp add: drive_output_proj interpose_def toArray_def)
       (simp add: Interpose_def Interpose_init_def Interpose_result_def)
next
  case (Cons x xs)
  have "pull_loop (Interpose (fst toArray) sep) \<lparr>isStarted = False, Interpose_xf = ()\<rparr> [] (x # xs)
          = pull_loop (Interpose (fst toArray) sep) \<lparr>isStarted = True, Interpose_xf = ()\<rparr> [x] xs"
    by (simp add: Interpose_def Interpose_step_def toArray_def aPush_def)
  then show ?thesis
    using Interpose_loop[of sep "[x]" xs] Cons
    by (simp add: drive_output_proj interpose_def toArray_def)
       (simp add: Interpose_def Interpose_init_def Interpose_result_def toArray_def)
qed

lemma Interpose_step_separator_reduced:
  "isStarted this \<Longrightarrow>
   transducer_step xf (spied (Interpose_xf this)) result sep = (Reduced a, s') \<Longrightarrow>
   Interpose_step (spy xf) sep this result input
     = (Reduced a,
        this\<lparr>Interpose_xf := \<lparr>calls = calls (Interpose_xf this) @ [(sep, Reduced a)], spied = s'\<rparr>\<rparr>)"
  by (simp add: Interpose_step_def spy_def)

text \<open>
  Claim C6. For every separator and every input, \<open>interpose\<close> passes the separator
  downstream immediately before every input except the first: an empty or one-element
  input yields no separator, and 1,2,3 with separator 0 yields 1,0,2,0,3. When the
  downstream step on the separator returns a signaled result, the step returns that result
  at once: the call with the separator is the only call made, the input is not passed.
\<close>

theorem interpose_separates:
  "drive_output (interpose sep toArray) [] = []
   \<and> drive_output (interpose sep toArray) [x] = [x]
   \<and> drive_output (interpose sep toArray) (x # xs) = x # separated sep xs
   \<and> drive_output (interpose 0 toArray) [1, 2, 3 :: int] = [1, 0, 2, 0, 3]
   \<and> (isStarted this \<and> transducer_step xf (spied (Interpose_xf this)) result sep = (Reduced a, s')
        \<longrightarrow> Interpose_step (spy xf) sep this result input
              = (Reduced a,
                 this\<lparr>Interpose_xf :=
                   \<lparr>calls = calls (Interpose_xf this) @ [(sep, Reduced a)], spied = s'\<rparr>\<rparr>))"
  using Interpose_step_separator_reduced[of this xf result sep a s' input]
  by (simp add: interpose_output)

text \<open>
  The theorem where \<open>take 2\<close> follows \<open>interpose 0\<close>: the separator is the second element
  that \<open>take\<close> sees, and 2 never reaches it.
\<close>

theorem interpose_separates_witness:
  "drive_output (interpose 0 (take_stage 2 toArray)) [1, 2, 3 :: int] = [1, 0]
   \<and> Interpose_step (spy (Take (fst toArray) 2)) 0
        \<lparr>isStarted = True, Interpose_xf = \<lparr>calls = [], spied = \<lparr>Take_i = 1, Take_xf = ()\<rparr>\<rparr>\<rparr>
        [1] (2 :: int)
      = (Reduced [1, 0],
         \<lparr>isStarted = True,
          Interpose_xf = \<lparr>calls = [(0, Reduced [1, 0])], spied = \<lparr>Take_i = 2, Take_xf = ()\<rparr>\<rparr>\<rparr>)"
proof -
  have step: "transducer_step (Take (fst toArray) 2) \<lparr>Take_i = 1, Take_xf = ()\<rparr> [1] (0 :: int)
                = (Reduced [1, 0], \<lparr>Take_i = 2, Take_xf = ()\<rparr>)"
    by (simp add: Take_def Take_step_def toArray_def aPush_def ensureReduced_def reduced_def)
  have "Interpose_step (spy (Take (fst toArray) 2)) 0
        \<lparr>isStarted = True, Interpose_xf = \<lparr>calls = [], spied = \<lparr>Take_i = 1, Take_xf = ()\<rparr>\<rparr>\<rparr>
        [1] (2 :: int)
      = (Reduced [1, 0],
         \<lparr>isStarted = True,
          Interpose_xf = \<lparr>calls = [(0, Reduced [1, 0])], spied = \<lparr>Take_i = 2, Take_xf = ()\<rparr>\<rparr>\<rparr>)"
    using step
      interpose_separates[of "0 :: int" 0 "[]"
        "\<lparr>isStarted = True, Interpose_xf = \<lparr>calls = [], spied = \<lparr>Take_i = 1, Take_xf = ()\<rparr>\<rparr>\<rparr>"
        "Take (fst toArray) 2" "[1]" "[1, 0]" "\<lparr>Take_i = 2, Take_xf = ()\<rparr>" 2]
    by simp
  moreover have "drive_output (interpose 0 (take_stage 2 toArray)) [1, 2, 3 :: int] = [1, 0]"
    by (simp add: drive_output_def drive_def interpose_def Interpose_def Interpose_init_def
          Interpose_result_def Interpose_step_def take_stage_def Take_def Take_init_def
          Take_result_def Take_step_def toArray_def aPush_def ensureReduced_def reduced_def)
  ultimately show ?thesis by simp
qed

subsection \<open>partitionAll\<close>

lemma PartitionAll_loop:
  assumes "1 \<le> n" and "int (length b) < n"
  shows "\<exists>gs lo.
           pull_loop (PartitionAll (fst toArray) n)
             \<lparr>PartitionAll_buffer = b, PartitionAll_xf = ()\<rparr> acc src
             = (acc @ gs, \<lparr>PartitionAll_buffer = lo, PartitionAll_xf = ()\<rparr>, [])
           \<and> concat gs @ lo = b @ src
           \<and> (\<forall>g \<in> set gs. int (length g) = n)
           \<and> int (length lo) < n"
  using assms
proof (induction src arbitrary: b acc)
  case Nil
  then show ?case by simp
next
  case (Cons x src)
  show ?case
  proof (cases "int (length (b @ [x])) = n")
    case True
    have step: "pull_loop (PartitionAll (fst toArray) n)
             \<lparr>PartitionAll_buffer = b, PartitionAll_xf = ()\<rparr> acc (x # src)
          = pull_loop (PartitionAll (fst toArray) n)
             \<lparr>PartitionAll_buffer = [], PartitionAll_xf = ()\<rparr> (acc @ [b @ [x]]) src"
      using True
      by (simp add: PartitionAll_def PartitionAll_step_def toArray_def aPush_def)
    obtain gs lo where
      ih: "pull_loop (PartitionAll (fst toArray) n)
             \<lparr>PartitionAll_buffer = [], PartitionAll_xf = ()\<rparr> (acc @ [b @ [x]]) src
             = ((acc @ [b @ [x]]) @ gs, \<lparr>PartitionAll_buffer = lo, PartitionAll_xf = ()\<rparr>, [])"
         "concat gs @ lo = [] @ src" "\<forall>g \<in> set gs. int (length g) = n" "int (length lo) < n"
      using Cons.IH[of "[]" "acc @ [b @ [x]]"] Cons.prems by auto
    show ?thesis
      apply (rule exI[of _ "(b @ [x]) # gs"], rule exI[of _ lo])
      using step ih True by simp
  next
    case False
    then have lt: "int (length (b @ [x])) < n" using Cons.prems by simp
    have step: "pull_loop (PartitionAll (fst toArray) n)
             \<lparr>PartitionAll_buffer = b, PartitionAll_xf = ()\<rparr> acc (x # src)
          = pull_loop (PartitionAll (fst toArray) n)
             \<lparr>PartitionAll_buffer = b @ [x], PartitionAll_xf = ()\<rparr> acc src"
      using False
      by (simp add: PartitionAll_def PartitionAll_step_def toArray_def aPush_def)
    obtain gs lo where
      ih: "pull_loop (PartitionAll (fst toArray) n)
             \<lparr>PartitionAll_buffer = b @ [x], PartitionAll_xf = ()\<rparr> acc src
             = (acc @ gs, \<lparr>PartitionAll_buffer = lo, PartitionAll_xf = ()\<rparr>, [])"
         "concat gs @ lo = (b @ [x]) @ src" "\<forall>g \<in> set gs. int (length g) = n" "int (length lo) < n"
      using Cons.IH[of "b @ [x]" acc] Cons.prems lt by blast
    show ?thesis
      apply (rule exI[of _ gs], rule exI[of _ lo])
      using step ih by simp
  qed
qed

lemma partitionAll_output:
  assumes "1 \<le> n"
  shows "\<exists>gs lo. drive_output (new_PartitionAll toArray n) src = gs @ (if lo = [] then [] else [lo])
           \<and> concat gs @ lo = src \<and> (\<forall>g \<in> set gs. int (length g) = n) \<and> int (length lo) < n"
proof -
  obtain gs lo where
    l: "pull_loop (PartitionAll (fst toArray) n)
          \<lparr>PartitionAll_buffer = [], PartitionAll_xf = ()\<rparr> [] src
          = ([] @ gs, \<lparr>PartitionAll_buffer = lo, PartitionAll_xf = ()\<rparr>, [])"
       "concat gs @ lo = [] @ src" "\<forall>g \<in> set gs. int (length g) = n" "int (length lo) < n"
    using PartitionAll_loop[of n "[]" "[]" src] assms by auto
  have i: "transducer_init (PartitionAll (fst toArray) n)
             \<lparr>PartitionAll_buffer = [], PartitionAll_xf = ()\<rparr>
           = ([], \<lparr>PartitionAll_buffer = [], PartitionAll_xf = ()\<rparr>)"
    by (simp add: PartitionAll_def PartitionAll_init_def toArray_def)
  have r: "transducer_result (PartitionAll (fst toArray) n)
             \<lparr>PartitionAll_buffer = lo, PartitionAll_xf = ()\<rparr> ([] @ gs)
           = (gs @ (if lo = [] then [] else [lo]),
              \<lparr>PartitionAll_buffer = [], PartitionAll_xf = ()\<rparr>)"
    by (simp add: PartitionAll_def PartitionAll_result_def toArray_def aPush_def)
  have "drive (PartitionAll (fst toArray) n, \<lparr>PartitionAll_buffer = [], PartitionAll_xf = ()\<rparr>) src
          = (gs @ (if lo = [] then [] else [lo]),
             \<lparr>PartitionAll_buffer = [], PartitionAll_xf = ()\<rparr>, [])"
    by (rule drive_eq[OF i l(1) r])
  then have "drive_output (new_PartitionAll toArray n) src = gs @ (if lo = [] then [] else [lo])"
    by (simp add: new_PartitionAll_def drive_output_def)
  then show ?thesis using l by auto
qed

lemma length_concat_uniform:
  "(\<forall>g \<in> set gs. length g = N) \<Longrightarrow> length (concat gs) = N * length gs"
  by (induction gs) simp_all

lemma ceil_div_groups:
  fixes N G L :: nat
  assumes "0 < N" and "L < N"
  shows "(N * G + L + N - 1) div N = G + (if L = 0 then 0 else 1)"
proof (rule div_nat_eqI)
  show "N * (G + (if L = 0 then 0 else 1)) \<le> N * G + L + N - 1"
    using assms by (cases "L = 0") (simp_all add: algebra_simps)
  show "N * G + L + N - 1 < N * Suc (G + (if L = 0 then 0 else 1))"
    using assms by (cases "L = 0") (simp_all add: algebra_simps)
qed

lemma PartitionAll_result_flush:
  "PartitionAll_buffer this \<noteq> [] \<Longrightarrow>
   transducer_step xf (spied (PartitionAll_xf this)) result (PartitionAll_buffer this) = (r, s') \<Longrightarrow>
   transducer_result xf s' (unreduced r) = (c, s'') \<Longrightarrow>
   PartitionAll_result (spy xf) this result
     = (c, \<lparr>PartitionAll_buffer = [],
            PartitionAll_xf =
              \<lparr>calls = calls (PartitionAll_xf this) @ [(PartitionAll_buffer this, r)],
               spied = s''\<rparr>\<rparr>)"
  by (simp add: PartitionAll_result_def spy_def)


text \<open>
  Claim C2. For every \<open>n \<ge> 1\<close> and every input of \<open>m\<close> elements, \<open>partitionAll n\<close> emits
  \<open>ceil (m / n)\<close> groups whose concatenation is the input; every group but the last has
  exactly \<open>n\<close> elements, and every group, the last included, is non-empty and has at most
  \<open>n\<close>. When finish is reached with a non-empty buffer, the buffer is passed to the
  downstream step (one call, recorded by the observer) and the downstream finish is then
  called on the accumulator that step returned. Over 1..5 with \<open>n = 2\<close> the output is
  [1,2], [3,4], [5].
\<close>

theorem partitionAll_groups:
  assumes "1 \<le> n"
  shows "concat (drive_output (new_PartitionAll toArray n) src) = src
   \<and> length (drive_output (new_PartitionAll toArray n) src) = (length src + nat n - 1) div nat n
   \<and> (\<forall>g \<in> set (butlast (drive_output (new_PartitionAll toArray n) src)). int (length g) = n)
   \<and> (\<forall>g \<in> set (drive_output (new_PartitionAll toArray n) src).
         0 < length g \<and> int (length g) \<le> n)
   \<and> (PartitionAll_buffer this \<noteq> []
        \<and> transducer_step xf (spied (PartitionAll_xf this)) result (PartitionAll_buffer this)
            = (r, s')
        \<and> transducer_result xf s' (unreduced r) = (c, s'')
       \<longrightarrow> PartitionAll_result (spy xf) this result
           = (c, \<lparr>PartitionAll_buffer = [],
                  PartitionAll_xf =
                    \<lparr>calls = calls (PartitionAll_xf this) @ [(PartitionAll_buffer this, r)],
                     spied = s''\<rparr>\<rparr>))
   \<and> drive_output (new_PartitionAll toArray 2) [1, 2, 3, 4, 5 :: int] = [[1, 2], [3, 4], [5]]"
proof -
  obtain gs lo where
    out: "drive_output (new_PartitionAll toArray n) src = gs @ (if lo = [] then [] else [lo])"
    and cat: "concat gs @ lo = src"
    and full: "\<forall>g \<in> set gs. int (length g) = n"
    and lo: "int (length lo) < n"
    using partitionAll_output[OF assms, of src] by blast
  have full': "\<forall>g \<in> set gs. length g = nat n" using full by auto
  have len: "length src = nat n * length gs + length lo"
    using cat length_concat_uniform[OF full'] by (metis length_append)
  have a: "concat (drive_output (new_PartitionAll toArray n) src) = src"
    using out cat by auto
  have b: "length (drive_output (new_PartitionAll toArray n) src)
             = (length src + nat n - 1) div nat n"
    using ceil_div_groups[of "nat n" "length lo" "length gs"] assms lo
    by (simp add: out len)
  have c: "\<forall>g \<in> set (butlast (drive_output (new_PartitionAll toArray n) src)). int (length g) = n"
    using full by (auto simp: out butlast_append dest: in_set_butlastD)
  have d: "\<forall>g \<in> set (drive_output (new_PartitionAll toArray n) src).
             0 < length g \<and> int (length g) \<le> n"
    using full lo assms by (auto simp: out)
  have e: "drive_output (new_PartitionAll toArray 2) [1, 2, 3, 4, 5 :: int] = [[1, 2], [3, 4], [5]]"
    by (simp add: drive_output_def drive_def new_PartitionAll_def PartitionAll_def
          PartitionAll_init_def PartitionAll_result_def PartitionAll_step_def toArray_def
          aPush_def)
  show ?thesis
    using a b c d e PartitionAll_result_flush[of this xf result r s' c s''] by blast
qed

text \<open>The theorem at \<open>n = 2\<close> over 1..7, and the finish that flushes the leftover [7].\<close>

theorem partitionAll_groups_witness:
  "drive_output (new_PartitionAll toArray 2) [1, 2, 3, 4, 5, 6, 7 :: int]
     = [[1, 2], [3, 4], [5, 6], [7]]
   \<and> (length [1, 2, 3, 4, 5, 6, 7 :: int] + nat 2 - 1) div nat 2 = 4
   \<and> PartitionAll_result (spy (fst toArray))
        \<lparr>PartitionAll_buffer = [7 :: int], PartitionAll_xf = \<lparr>calls = [], spied = ()\<rparr>\<rparr> [[1, 2]]
      = ([[1, 2], [7]],
         \<lparr>PartitionAll_buffer = [],
          PartitionAll_xf = \<lparr>calls = [([7], Plain [[1, 2], [7]])], spied = ()\<rparr>\<rparr>)"
proof -
  have n: "(1 :: int) \<le> 2" by simp
  have s: "transducer_step (fst toArray) () [[1, 2]] [7 :: int] = (Plain [[1, 2], [7]], ())"
    by (simp add: toArray_def aPush_def)
  have r: "transducer_result (fst toArray) () (unreduced (Plain [[1, 2], [7 :: int]]))
             = ([[1, 2], [7]], ())"
    by (simp add: toArray_def)
  have o: "drive_output (new_PartitionAll toArray 2) [1, 2, 3, 4, 5, 6, 7 :: int]
     = [[1, 2], [3, 4], [5, 6], [7]]"
    by (simp add: drive_output_def drive_def new_PartitionAll_def PartitionAll_def
          PartitionAll_init_def PartitionAll_result_def PartitionAll_step_def toArray_def
          aPush_def)
  show ?thesis
    using s r o
      partitionAll_groups[OF n, of "[1, 2, 3, 4, 5, 6, 7 :: int]"
        "\<lparr>PartitionAll_buffer = [7 :: int], PartitionAll_xf = \<lparr>calls = [], spied = ()\<rparr>\<rparr>"
        "fst toArray" "[[1, 2]]" "Plain [[1, 2], [7]]" "()" "[[1, 2], [7]]" "()"]
    by simp
qed

subsection \<open>partitionBy\<close>

lemma PartitionBy_loop:
  assumes "lastKey result =
             (if PartitionBy_buffer result = [] then None
              else Some (f (last (PartitionBy_buffer result))))"
  shows "value (fst (pull_loop (PartitionBy (fst toArray) f) () result src))
           @ (if PartitionBy_buffer (fst (pull_loop (PartitionBy (fst toArray) f) () result src)) = []
              then []
              else [PartitionBy_buffer (fst (pull_loop (PartitionBy (fst toArray) f) () result src))])
         = value result @ key_runs f (PartitionBy_buffer result) src"
  using assms
proof (induction src arbitrary: result)
  case Nil
  then show ?case by simp
next
  case (Cons x src)
  let ?b = "PartitionBy_buffer result"
  show ?case
  proof (cases "?b = [] \<or> f (last ?b) = f x")
    case True
    let ?r = "result\<lparr>lastKey := Some (f x), PartitionBy_buffer := ?b @ [x]\<rparr>"
    have step: "pull_loop (PartitionBy (fst toArray) f) () result (x # src)
                  = pull_loop (PartitionBy (fst toArray) f) () ?r src"
      using True Cons.prems
      by (auto simp: PartitionBy_def PartitionBy_step_def INITIAL_LAST_KEY_def
            assign_unreduced_def Let_def)
    show ?thesis
      unfolding step using Cons.IH[of ?r] True by simp
  next
    case False
    let ?r = "result\<lparr>lastKey := Some (f x), value := value result @ [?b],
                     PartitionBy_buffer := [x]\<rparr>"
    have step: "pull_loop (PartitionBy (fst toArray) f) () result (x # src)
                  = pull_loop (PartitionBy (fst toArray) f) () ?r src"
      using False Cons.prems
      by (auto simp: PartitionBy_def PartitionBy_step_def INITIAL_LAST_KEY_def
            assign_unreduced_def updateValue_def toArray_def aPush_def Let_def)
    show ?thesis
      unfolding step using Cons.IH[of ?r] False by simp
  qed
qed

lemma PartitionBy_result_toArray:
  "fst (transducer_result (PartitionBy (fst toArray) f) s result)
     = value result @ (if PartitionBy_buffer result = [] then [] else [PartitionBy_buffer result])"
  by (simp add: PartitionBy_def PartitionBy_result_def toArray_def aPush_def)

lemma partitionBy_output: "drive_output (partitionBy f toArray) src = key_runs f [] src"
proof -
  let ?r0 = "\<lparr>value = [], PartitionBy_buffer = [], lastKey = None\<rparr>"
  let ?l = "fst (pull_loop (PartitionBy (fst toArray) f) () ?r0 src)"
  have loop: "value ?l @ (if PartitionBy_buffer ?l = [] then [] else [PartitionBy_buffer ?l])
          = key_runs f [] src"
    using PartitionBy_loop[of ?r0 f src] by simp
  have init: "transducer_init (PartitionBy (fst toArray) f) () = (?r0, ())"
    by (simp add: PartitionBy_def PartitionBy_init_def INITIAL_LAST_KEY_def toArray_def)
  have "drive_output (PartitionBy (fst toArray) f, ()) src
          = value ?l @ (if PartitionBy_buffer ?l = [] then [] else [PartitionBy_buffer ?l])"
    unfolding drive_output_eq[OF init] by (rule PartitionBy_result_toArray)
  also have "\<dots> = key_runs f [] src"
    by (rule loop)
  finally show ?thesis
    by (simp add: partitionBy_def toArray_def)
qed

lemma key_runs_concat: "concat (key_runs f b xs) = b @ xs"
  by (induction xs arbitrary: b) simp_all

lemma key_runs_nonempty: "g \<in> set (key_runs f b xs) \<Longrightarrow> g \<noteq> []"
  by (induction xs arbitrary: b) (auto split: if_splits)

lemma key_runs_constant:
  "\<forall>x \<in> set b. f x = k \<Longrightarrow> g \<in> set (key_runs f b xs) \<Longrightarrow> \<exists>k'. \<forall>x \<in> set g. f x = k'"
proof (induction xs arbitrary: b k)
  case Nil
  then have "g = b" by (simp split: if_splits)
  then show ?case using Nil.prems(1) by blast
next
  case (Cons a xs)
  show ?case
  proof (cases "b = [] \<or> f (last b) = f a")
    case True
    have "\<forall>x \<in> set (b @ [a]). f x = f a"
    proof (cases "b = []")
      case True
      then show ?thesis by simp
    next
      case False
      then have "last b \<in> set b" by simp
      then have "f (last b) = k" using Cons.prems(1) by blast
      then have "k = f a" using True False by simp
      then show ?thesis using Cons.prems(1) by simp
    qed
    moreover have "g \<in> set (key_runs f (b @ [a]) xs)"
      using Cons.prems(2) True by simp
    ultimately show ?thesis by (rule Cons.IH)
  next
    case False
    then have "g = b \<or> g \<in> set (key_runs f [a] xs)"
      using Cons.prems(2) by simp
    then show ?thesis
    proof
      assume "g = b"
      then show ?thesis using Cons.prems(1) by blast
    next
      assume "g \<in> set (key_runs f [a] xs)"
      moreover have "\<forall>x \<in> set [a]. f x = f a" by simp
      ultimately show ?thesis by (rule Cons.IH[rotated])
    qed
  qed
qed

lemma key_runs_hd:
  "b \<noteq> [] \<Longrightarrow> \<exists>g gs. key_runs f b xs = g # gs \<and> hd g = hd b"
proof (induction xs arbitrary: b)
  case Nil
  then show ?case by simp
next
  case (Cons a xs)
  then show ?case
    using Cons.IH[of "b @ [a]"] by auto
qed

lemma key_runs_changes: "key_changes f (key_runs f b xs)"
proof (induction xs arbitrary: b)
  case Nil
  then show ?case by simp
next
  case (Cons a xs)
  show ?case
  proof (cases "b = [] \<or> f (last b) = f a")
    case True
    then show ?thesis using Cons.IH[of "b @ [a]"] by simp
  next
    case False
    obtain g gs where g: "key_runs f [a] xs = g # gs" "hd g = hd [a]"
      using key_runs_hd[of "[a]" f xs] by auto
    then show ?thesis
      using False Cons.IH[of "[a]"] by simp
  qed
qed

lemma PartitionBy_step_same_key:
  "lastKey result = INITIAL_LAST_KEY \<or> lastKey result = Some (f input) \<Longrightarrow>
   PartitionBy_step (spy xf) f this result input
     = (Plain (result\<lparr>lastKey := Some (f input),
                       PartitionBy_buffer := PartitionBy_buffer result @ [input]\<rparr>), this)"
  by (auto simp: PartitionBy_step_def assign_unreduced_def Let_def)

lemma PartitionBy_step_key_change:
  "lastKey result = Some k \<Longrightarrow> k \<noteq> f input \<Longrightarrow>
   transducer_step xf (spied this) (value result) (PartitionBy_buffer result) = (r, s') \<Longrightarrow>
   PartitionBy_step (spy xf) f this result input
     = ((case r of
           Plain v \<Rightarrow> Plain (result\<lparr>lastKey := Some (f input), value := v,
                                    PartitionBy_buffer := [input]\<rparr>)
         | Reduced v \<Rightarrow> Reduced (result\<lparr>lastKey := Some (f input), value := v,
                                        PartitionBy_buffer := [input]\<rparr>)),
        \<lparr>calls = calls this @ [(PartitionBy_buffer result, r)], spied = s'\<rparr>)"
  by (cases r)
     (simp_all add: PartitionBy_step_def assign_unreduced_def updateValue_def reduced_def
        INITIAL_LAST_KEY_def spy_def Let_def)

lemma PartitionBy_result_flush:
  "PartitionBy_buffer result \<noteq> [] \<Longrightarrow>
   transducer_step xf (spied this) (value result) (PartitionBy_buffer result) = (r, s') \<Longrightarrow>
   transducer_result xf s' (unreduced r) = (c, s'') \<Longrightarrow>
   PartitionBy_result (spy xf) this result
     = (c, \<lparr>calls = calls this @ [(PartitionBy_buffer result, r)], spied = s''\<rparr>)"
  by (simp add: PartitionBy_result_def spy_def)

lemma PartitionBy_init_unset:
  "lastKey (fst (PartitionBy_init xf this)) = INITIAL_LAST_KEY
   \<and> PartitionBy_buffer (fst (PartitionBy_init xf this)) = []"
  by (simp add: PartitionBy_init_def split: prod.splits)

text \<open>
  Claim C4. For every input and key function \<open>f\<close>, \<open>partitionBy f\<close> emits the maximal runs
  of consecutive elements with equal keys, in input order: the groups concatenate to the
  input, each is non-empty with one key throughout, and the key changes from each group to
  the next. Keys are compared by the equality of the key type, which stands for
  \<^verbatim>\<open>===\<close>. A step whose key equals the previous key, or that finds no previous key (as
  after init, so the first element never flushes), makes no downstream call and appends the
  input to the buffer. A step whose key differs passes the buffer to the downstream step
  first, one call, and starts a new buffer with the input. A finish that finds a non-empty
  buffer passes it to the downstream step before it calls the downstream finish. Over
  "a","b","cc","dd","e" with \<open>f = length\<close> the output is ["a","b"], ["cc","dd"], ["e"].
\<close>

theorem partitionBy_groups:
  "drive_output (partitionBy f toArray) src = key_runs f [] src
   \<and> concat (drive_output (partitionBy f toArray) src) = src
   \<and> (\<forall>g \<in> set (drive_output (partitionBy f toArray) src).
         g \<noteq> [] \<and> (\<forall>x \<in> set g. \<forall>y \<in> set g. f x = f y))
   \<and> key_changes f (drive_output (partitionBy f toArray) src)
   \<and> lastKey (fst (PartitionBy_init xf this0)) = INITIAL_LAST_KEY
   \<and> PartitionBy_buffer (fst (PartitionBy_init xf this0)) = []
   \<and> (lastKey result = INITIAL_LAST_KEY \<or> lastKey result = Some (f input)
        \<longrightarrow> PartitionBy_step (spy xf) f this result input
            = (Plain (result\<lparr>lastKey := Some (f input),
                              PartitionBy_buffer := PartitionBy_buffer result @ [input]\<rparr>), this))
   \<and> (lastKey result = Some k \<and> k \<noteq> f input
        \<and> transducer_step xf (spied this) (value result) (PartitionBy_buffer result) = (r, s')
        \<longrightarrow> PartitionBy_step (spy xf) f this result input
            = ((case r of
                  Plain v \<Rightarrow> Plain (result\<lparr>lastKey := Some (f input), value := v,
                                           PartitionBy_buffer := [input]\<rparr>)
                | Reduced v \<Rightarrow> Reduced (result\<lparr>lastKey := Some (f input), value := v,
                                               PartitionBy_buffer := [input]\<rparr>)),
               \<lparr>calls = calls this @ [(PartitionBy_buffer result, r)], spied = s'\<rparr>))
   \<and> (PartitionBy_buffer result \<noteq> []
        \<and> transducer_step xf (spied this) (value result) (PartitionBy_buffer result) = (r, s')
        \<and> transducer_result xf s' (unreduced r) = (c, s'')
        \<longrightarrow> PartitionBy_result (spy xf) this result
            = (c, \<lparr>calls = calls this @ [(PartitionBy_buffer result, r)], spied = s''\<rparr>))
   \<and> drive_output (partitionBy length toArray) [''a'', ''b'', ''cc'', ''dd'', ''e'']
       = [[''a'', ''b''], [''cc'', ''dd''], [''e'']]"
proof -
  have a: "drive_output (partitionBy f toArray) src = key_runs f [] src"
    by (rule partitionBy_output)
  have b: "concat (drive_output (partitionBy f toArray) src) = src"
    by (simp add: a key_runs_concat)
  have c: "\<forall>g \<in> set (drive_output (partitionBy f toArray) src).
         g \<noteq> [] \<and> (\<forall>x \<in> set g. \<forall>y \<in> set g. f x = f y)"
  proof
    fix g
    assume g: "g \<in> set (drive_output (partitionBy f toArray) src)"
    then have g': "g \<in> set (key_runs f [] src)" by (simp only: a)
    have ne: "g \<noteq> []" using g' by (rule key_runs_nonempty)
    have "\<forall>x \<in> set []. f x = undefined" by simp
    then obtain k' where "\<forall>x \<in> set g. f x = k'"
      using key_runs_constant[of "[]" f undefined g src] g' by blast
    then have "\<forall>x \<in> set g. \<forall>y \<in> set g. f x = f y" by simp
    then show "g \<noteq> [] \<and> (\<forall>x \<in> set g. \<forall>y \<in> set g. f x = f y)"
      using ne by (rule_tac conjI)
  qed
  have d: "key_changes f (drive_output (partitionBy f toArray) src)"
    unfolding a by (rule key_runs_changes)
  have e: "drive_output (partitionBy length toArray) [''a'', ''b'', ''cc'', ''dd'', ''e'']
       = [[''a'', ''b''], [''cc'', ''dd''], [''e'']]"
    by (simp add: partitionBy_output)
  have i1: "lastKey (fst (PartitionBy_init xf this0)) = INITIAL_LAST_KEY"
    by (rule PartitionBy_init_unset[THEN conjunct1])
  have i2: "PartitionBy_buffer (fst (PartitionBy_init xf this0)) = []"
    by (rule PartitionBy_init_unset[THEN conjunct2])
  have f1: "lastKey result = INITIAL_LAST_KEY \<or> lastKey result = Some (f input)
        \<longrightarrow> PartitionBy_step (spy xf) f this result input
            = (Plain (result\<lparr>lastKey := Some (f input),
                              PartitionBy_buffer := PartitionBy_buffer result @ [input]\<rparr>), this)"
    using PartitionBy_step_same_key[of result f input xf this] by (rule impI)
  have f2: "lastKey result = Some k \<and> k \<noteq> f input
        \<and> transducer_step xf (spied this) (value result) (PartitionBy_buffer result) = (r, s')
        \<longrightarrow> PartitionBy_step (spy xf) f this result input
            = ((case r of
                  Plain v \<Rightarrow> Plain (result\<lparr>lastKey := Some (f input), value := v,
                                           PartitionBy_buffer := [input]\<rparr>)
                | Reduced v \<Rightarrow> Reduced (result\<lparr>lastKey := Some (f input), value := v,
                                               PartitionBy_buffer := [input]\<rparr>)),
               \<lparr>calls = calls this @ [(PartitionBy_buffer result, r)], spied = s'\<rparr>)"
    using PartitionBy_step_key_change[of result k f input xf this r s'] by blast
  have f3: "PartitionBy_buffer result \<noteq> []
        \<and> transducer_step xf (spied this) (value result) (PartitionBy_buffer result) = (r, s')
        \<and> transducer_result xf s' (unreduced r) = (c, s'')
        \<longrightarrow> PartitionBy_result (spy xf) this result
            = (c, \<lparr>calls = calls this @ [(PartitionBy_buffer result, r)], spied = s''\<rparr>)"
    using PartitionBy_result_flush[of result xf this r s' c s''] by blast
  show ?thesis
    by (intro conjI a b c d i1 i2 f1 f2 f3 e)
qed

text \<open>
  The theorem at the key \<open>n div 10\<close> over 1, 2, 30, 4: the first step, the step at the
  key change, and the finish with the leftover [4].
\<close>

theorem partitionBy_groups_witness:
  "drive_output (partitionBy (\<lambda>n. n div 10) toArray) [1, 2, 30, 4 :: int] = [[1, 2], [30], [4]]
   \<and> key_changes (\<lambda>n. n div 10) [[1, 2], [30], [4 :: int]]
   \<and> PartitionBy_step (spy (fst toArray)) (\<lambda>n. n div 10) \<lparr>calls = [], spied = ()\<rparr>
        \<lparr>value = [], PartitionBy_buffer = [], lastKey = None\<rparr> (1 :: int)
      = (Plain \<lparr>value = [], PartitionBy_buffer = [1], lastKey = Some 0\<rparr>,
         \<lparr>calls = [], spied = ()\<rparr>)
   \<and> PartitionBy_step (spy (fst toArray)) (\<lambda>n. n div 10) \<lparr>calls = [], spied = ()\<rparr>
        \<lparr>value = [], PartitionBy_buffer = [1, 2], lastKey = Some 0\<rparr> (30 :: int)
      = (Plain \<lparr>value = [[1, 2]], PartitionBy_buffer = [30], lastKey = Some 3\<rparr>,
         \<lparr>calls = [([1, 2], Plain [[1, 2]])], spied = ()\<rparr>)
   \<and> PartitionBy_result (spy (fst toArray)) \<lparr>calls = [], spied = ()\<rparr>
        \<lparr>value = [[1, 2], [30]], PartitionBy_buffer = [4 :: int], lastKey = Some (0 :: int)\<rparr>
      = ([[1, 2], [30], [4]], \<lparr>calls = [([4], Plain [[1, 2], [30], [4]])], spied = ()\<rparr>)"
proof -
  let ?f = "\<lambda>n :: int. n div 10"
  have s1: "transducer_step (fst toArray) () [] [1, 2 :: int] = (Plain [[1, 2]], ())"
    by (simp add: toArray_def aPush_def)
  have s2: "transducer_step (fst toArray) () [[1, 2], [30]] [4 :: int]
              = (Plain [[1, 2], [30], [4]], ())"
    by (simp add: toArray_def aPush_def)
  have r2: "transducer_result (fst toArray) () (unreduced (Plain [[1, 2], [30], [4 :: int]]))
              = ([[1, 2], [30], [4]], ())"
    by (simp add: toArray_def)
  note t = partitionBy_groups[where f = ?f and src = "[1, 2, 30, 4]" and xf = "fst toArray"
      and ?this0.0 = "()" and this = "\<lparr>calls = [], spied = ()\<rparr>"]
  note t1 = t[where result = "\<lparr>value = [], PartitionBy_buffer = [], lastKey = None\<rparr>"
      and input = 1 and k = 0 and r = "Plain []" and s' = "()" and c = "[]" and s'' = "()"]
  note t2 = t[where result = "\<lparr>value = [], PartitionBy_buffer = [1, 2], lastKey = Some 0\<rparr>"
      and input = 30 and k = 0 and r = "Plain [[1, 2]]" and s' = "()"
      and c = "[]" and s'' = "()"]
  note t3 = t[where
      result = "\<lparr>value = [[1, 2], [30]], PartitionBy_buffer = [4], lastKey = Some 0\<rparr>"
      and input = 4 and k = 0 and r = "Plain [[1, 2], [30], [4]]" and s' = "()"
      and c = "[[1, 2], [30], [4]]" and s'' = "()"]
  have w1: "drive_output (partitionBy ?f toArray) [1, 2, 30, 4 :: int] = [[1, 2], [30], [4]]"
    using t1[THEN conjunct1] by simp
  have w2: "key_changes ?f [[1, 2], [30], [4 :: int]]"
    using t1[THEN conjunct2, THEN conjunct2, THEN conjunct2, THEN conjunct1] unfolding w1 .
  have w3: "PartitionBy_step (spy (fst toArray)) ?f \<lparr>calls = [], spied = ()\<rparr>
        \<lparr>value = [], PartitionBy_buffer = [], lastKey = None\<rparr> (1 :: int)
      = (Plain \<lparr>value = [], PartitionBy_buffer = [1], lastKey = Some 0\<rparr>,
         \<lparr>calls = [], spied = ()\<rparr>)"
    using t1[THEN conjunct2, THEN conjunct2, THEN conjunct2, THEN conjunct2, THEN conjunct2,
             THEN conjunct2, THEN conjunct1]
    by (simp add: INITIAL_LAST_KEY_def)
  have w4: "PartitionBy_step (spy (fst toArray)) ?f \<lparr>calls = [], spied = ()\<rparr>
        \<lparr>value = [], PartitionBy_buffer = [1, 2], lastKey = Some 0\<rparr> (30 :: int)
      = (Plain \<lparr>value = [[1, 2]], PartitionBy_buffer = [30], lastKey = Some 3\<rparr>,
         \<lparr>calls = [([1, 2], Plain [[1, 2]])], spied = ()\<rparr>)"
    using s1 t2[THEN conjunct2, THEN conjunct2, THEN conjunct2, THEN conjunct2, THEN conjunct2,
                THEN conjunct2, THEN conjunct2, THEN conjunct1]
    by simp
  have w5: "PartitionBy_result (spy (fst toArray)) \<lparr>calls = [], spied = ()\<rparr>
        \<lparr>value = [[1, 2], [30]], PartitionBy_buffer = [4 :: int], lastKey = Some (0 :: int)\<rparr>
      = ([[1, 2], [30], [4]], \<lparr>calls = [([4], Plain [[1, 2], [30], [4]])], spied = ()\<rparr>)"
    using s2 r2 t3[THEN conjunct2, THEN conjunct2, THEN conjunct2, THEN conjunct2, THEN conjunct2,
                   THEN conjunct2, THEN conjunct2, THEN conjunct2, THEN conjunct1]
    by simp
  show ?thesis
    by (intro conjI w1 w2 w3 w4 w5)
qed

text \<open>
  Claim C10. When the downstream step that a \<open>partitionBy\<close> step makes for a key change
  returns a signaled result, the step still starts the new buffer with its input and
  returns a signaled result, so the driver stops pulling. The finish that follows finds the
  one-element buffer and makes exactly one more downstream step call, with that buffer,
  before it calls the downstream finish: a further group reaches the downstream stage after
  that stage has signaled.
\<close>

theorem partitionBy_flush_after_signal:
  assumes "lastKey result = Some k" and "k \<noteq> f input"
    and "transducer_step xf (spied this) (value result) (PartitionBy_buffer result) = (Reduced v, s')"
    and "transducer_step xf s' v [input] = (r2, s2)"
    and "transducer_result xf s2 (unreduced r2) = (c, s3)"
  shows "PartitionBy_step (spy xf) f this result input
           = (Reduced (result\<lparr>lastKey := Some (f input), value := v,
                              PartitionBy_buffer := [input]\<rparr>),
              \<lparr>calls = calls this @ [(PartitionBy_buffer result, Reduced v)], spied = s'\<rparr>)
         \<and> pull_loop (PartitionBy (spy xf) f) this result (input # rest)
           = (result\<lparr>lastKey := Some (f input), value := v, PartitionBy_buffer := [input]\<rparr>,
              \<lparr>calls = calls this @ [(PartitionBy_buffer result, Reduced v)], spied = s'\<rparr>,
              rest)
         \<and> PartitionBy_result (spy xf)
             \<lparr>calls = calls this @ [(PartitionBy_buffer result, Reduced v)], spied = s'\<rparr>
             (result\<lparr>lastKey := Some (f input), value := v, PartitionBy_buffer := [input]\<rparr>)
           = (c, \<lparr>calls = calls this @ [(PartitionBy_buffer result, Reduced v), ([input], r2)],
                  spied = s3\<rparr>)"
proof -
  have step: "PartitionBy_step (spy xf) f this result input
           = (Reduced (result\<lparr>lastKey := Some (f input), value := v,
                              PartitionBy_buffer := [input]\<rparr>),
              \<lparr>calls = calls this @ [(PartitionBy_buffer result, Reduced v)], spied = s'\<rparr>)"
    using PartitionBy_step_key_change[of result k f input xf this "Reduced v" s'] assms(1-3)
    by simp
  have loop: "pull_loop (PartitionBy (spy xf) f) this result (input # rest)
           = (result\<lparr>lastKey := Some (f input), value := v, PartitionBy_buffer := [input]\<rparr>,
              \<lparr>calls = calls this @ [(PartitionBy_buffer result, Reduced v)], spied = s'\<rparr>,
              rest)"
    using step by (simp add: PartitionBy_def)
  have fin: "PartitionBy_result (spy xf)
             \<lparr>calls = calls this @ [(PartitionBy_buffer result, Reduced v)], spied = s'\<rparr>
             (result\<lparr>lastKey := Some (f input), value := v, PartitionBy_buffer := [input]\<rparr>)
           = (c, \<lparr>calls = calls this @ [(PartitionBy_buffer result, Reduced v), ([input], r2)],
                  spied = s3\<rparr>)"
    using PartitionBy_result_flush[of
        "result\<lparr>lastKey := Some (f input), value := v, PartitionBy_buffer := [input]\<rparr>"
        xf "\<lparr>calls = calls this @ [(PartitionBy_buffer result, Reduced v)], spied = s'\<rparr>"
        r2 s2 c s3] assms(4) assms(5)
    by simp
  show ?thesis by (intro conjI step loop fin)
qed

text \<open>
  The theorem where \<open>take 1\<close> follows \<open>partitionBy length\<close>: two groups pass through
  \<open>take 1\<close>.
\<close>

theorem partitionBy_flush_after_signal_witness:
  "PartitionBy_step (spy (Take (fst toArray) 1)) length
      \<lparr>calls = [], spied = \<lparr>Take_i = 0, Take_xf = ()\<rparr>\<rparr>
      \<lparr>value = [], PartitionBy_buffer = [''a'', ''b''], lastKey = Some 1\<rparr> ''cc''
    = (Reduced \<lparr>value = [[''a'', ''b'']], PartitionBy_buffer = [''cc''], lastKey = Some (2 :: nat)\<rparr>,
       \<lparr>calls = [([''a'', ''b''], Reduced [[''a'', ''b'']])],
        spied = \<lparr>Take_i = 1, Take_xf = ()\<rparr>\<rparr>)
   \<and> PartitionBy_result (spy (Take (fst toArray) 1))
      \<lparr>calls = [([''a'', ''b''], Reduced [[''a'', ''b'']])],
       spied = \<lparr>Take_i = 1, Take_xf = ()\<rparr>\<rparr>
      \<lparr>value = [[''a'', ''b'']], PartitionBy_buffer = [''cc''], lastKey = Some (2 :: nat)\<rparr>
    = ([[''a'', ''b''], [''cc'']],
       \<lparr>calls = [([''a'', ''b''], Reduced [[''a'', ''b'']]),
                 ([''cc''], Reduced [[''a'', ''b''], [''cc'']])],
        spied = \<lparr>Take_i = 2, Take_xf = ()\<rparr>\<rparr>)
   \<and> drive_output (partitionBy length (take_stage 1 toArray)) [''a'', ''b'', ''cc'', ''dd'', ''e'']
    = [[''a'', ''b''], [''cc'']]"
proof -
  let ?xf = "Take (fst toArray) 1 :: (unit Take_obj, string list list, string list list, string list) transformer"
  let ?result = "\<lparr>value = [], PartitionBy_buffer = [''a'', ''b''], lastKey = Some (1 :: nat)\<rparr>"
  let ?t0 = "\<lparr>calls = [] :: (string list \<times> string list list maybe_reduced) list,
                 spied = \<lparr>Take_i = 0, Take_xf = ()\<rparr>\<rparr>"
  have k: "lastKey ?result = Some 1" by simp
  have ne: "(1 :: nat) \<noteq> length ''cc''" by simp
  have s1: "transducer_step ?xf (spied ?t0) (value ?result) (PartitionBy_buffer ?result)
              = (Reduced [[''a'', ''b'']], \<lparr>Take_i = 1, Take_xf = ()\<rparr>)"
    by (simp add: Take_def Take_step_def toArray_def aPush_def ensureReduced_def reduced_def)
  have s2: "transducer_step ?xf \<lparr>Take_i = 1, Take_xf = ()\<rparr> [[''a'', ''b'']] [''cc'']
              = (Reduced [[''a'', ''b''], [''cc'']], \<lparr>Take_i = 2, Take_xf = ()\<rparr>)"
    by (simp add: Take_def Take_step_def toArray_def aPush_def ensureReduced_def reduced_def)
  have r: "transducer_result ?xf \<lparr>Take_i = 2, Take_xf = ()\<rparr>
              (unreduced (Reduced [[''a'', ''b''], [''cc'']]))
              = ([[''a'', ''b''], [''cc'']], \<lparr>Take_i = 2, Take_xf = ()\<rparr>)"
    by (simp add: Take_def Take_result_def toArray_def)
  note t = partitionBy_flush_after_signal[where result = ?result and k = 1 and f = length
      and input = "''cc''" and xf = ?xf and this = ?t0 and v = "[[''a'', ''b'']]"
      and s' = "\<lparr>Take_i = 1, Take_xf = ()\<rparr>" and ?r2.0 = "Reduced [[''a'', ''b''], [''cc'']]"
      and ?s2.0 = "\<lparr>Take_i = 2, Take_xf = ()\<rparr>" and c = "[[''a'', ''b''], [''cc'']]"
      and ?s3.0 = "\<lparr>Take_i = 2, Take_xf = ()\<rparr>" and rest = "[]", OF k ne s1 s2 r]
  have w1: "PartitionBy_step (spy ?xf) length ?t0 ?result ''cc''
    = (Reduced \<lparr>value = [[''a'', ''b'']], PartitionBy_buffer = [''cc''], lastKey = Some (2 :: nat)\<rparr>,
       \<lparr>calls = [([''a'', ''b''], Reduced [[''a'', ''b'']])],
        spied = \<lparr>Take_i = 1, Take_xf = ()\<rparr>\<rparr>)"
    using t[THEN conjunct1] by (simp add: numeral_2_eq_2)
  have w2: "PartitionBy_result (spy ?xf)
      \<lparr>calls = [([''a'', ''b''], Reduced [[''a'', ''b'']])],
       spied = \<lparr>Take_i = 1, Take_xf = ()\<rparr>\<rparr>
      \<lparr>value = [[''a'', ''b'']], PartitionBy_buffer = [''cc''], lastKey = Some (2 :: nat)\<rparr>
    = ([[''a'', ''b''], [''cc'']],
       \<lparr>calls = [([''a'', ''b''], Reduced [[''a'', ''b'']]),
                 ([''cc''], Reduced [[''a'', ''b''], [''cc'']])],
        spied = \<lparr>Take_i = 2, Take_xf = ()\<rparr>\<rparr>)"
    using t[THEN conjunct2, THEN conjunct2] by (simp add: numeral_2_eq_2)
  have w3: "drive_output (partitionBy length (take_stage 1 toArray))
              [''a'', ''b'', ''cc'', ''dd'', ''e'']
    = [[''a'', ''b''], [''cc'']]"
    by (simp add: drive_output_def drive_def partitionBy_def PartitionBy_def PartitionBy_init_def
          PartitionBy_result_def PartitionBy_step_def INITIAL_LAST_KEY_def assign_unreduced_def
          updateValue_def take_stage_def Take_def Take_init_def Take_result_def Take_step_def
          toArray_def aPush_def ensureReduced_def reduced_def Let_def)
  show ?thesis by (intro conjI w1 w2 w3)
qed

subsection \<open>State kept on the transformer objects\<close>

lemma Drop_init_frame:
  "fst (Drop_init xf n this) = fst (transducer_init xf (Drop_xf this))
   \<and> Drop_i (snd (Drop_init xf n this)) = Drop_i this"
  by (simp add: Drop_init_def split: prod.splits)

lemma Drop_result_frame: "Drop_i (snd (Drop_result xf n this result)) = Drop_i this"
  by (simp add: Drop_result_def split: prod.splits)

lemma Drop_loop_count:
  "Drop_i (fst (snd (pull_loop (Drop xf n) this acc src)))
     = Drop_i this + int (length src - length (snd (snd (pull_loop (Drop xf n) this acc src))))"
proof (induction src arbitrary: this acc)
  case Nil
  then show ?case by simp
next
  case (Cons x src)
  obtain r this' where st: "Drop_step xf n this acc x = (r, this')"
    by (cases "Drop_step xf n this acc x")
  have i: "Drop_i this' = Drop_i this + 1"
    using st by (auto simp: Drop_step_def Let_def split: if_splits prod.splits)
  show ?case
  proof (cases r)
    case (Plain a)
    have le: "length (snd (snd (pull_loop (Drop xf n) this' a src))) \<le> length src"
      by (rule pull_loop_rest_le)
    have "pull_loop (Drop xf n) this acc (x # src) = pull_loop (Drop xf n) this' a src"
      using st Plain by (simp add: Drop_def)
    then show ?thesis
      using Cons.IH[of this' a] i le by (simp add: Suc_diff_le)
  next
    case (Reduced a)
    have "pull_loop (Drop xf n) this acc (x # src) = (a, this', src)"
      using st Reduced by (simp add: Drop_def)
    then show ?thesis using i by simp
  qed
qed

lemma drop_final_count:
  "Drop_i (final_state (drop_stage n down) src) = int (pulled (drop_stage n down) src)"
proof -
  obtain xf s0 where down: "down = (xf, s0)" by (cases down)
  let ?t0 = "\<lparr>Drop_i = 0, Drop_xf = s0\<rparr>"
  let ?i = "transducer_init (Drop xf n) ?t0"
  have i0: "Drop_i (snd ?i) = 0"
    using Drop_init_frame[of xf n ?t0] by (simp add: Drop_def)
  have "Drop_i (final_state (Drop xf n, ?t0) src)
          = Drop_i (fst (snd (pull_loop (Drop xf n) (snd ?i) (fst ?i) src)))"
    unfolding final_state_proj Let_def using Drop_result_frame[of xf n] by (simp add: Drop_def)
  also have "\<dots> = int (length src - length (snd (snd (pull_loop (Drop xf n) (snd ?i) (fst ?i) src))))"
    unfolding Drop_loop_count using i0 by simp
  also have "\<dots> = int (pulled (Drop xf n, ?t0) src)"
    by (simp add: pulled_def unpulled_proj Let_def)
  finally show ?thesis by (simp add: drop_stage_def down)
qed

lemma Interpose_init_frame:
  "fst (Interpose_init xf this) = fst (transducer_init xf (Interpose_xf this))
   \<and> isStarted (snd (Interpose_init xf this)) = isStarted this"
  by (simp add: Interpose_init_def split: prod.splits)

lemma Interpose_result_frame: "isStarted (snd (Interpose_result xf this result)) = isStarted this"
  by (simp add: Interpose_result_def split: prod.splits)

lemma Interpose_step_started: "isStarted (snd (Interpose_step xf sep this acc x))"
  by (simp add: Interpose_step_def Let_def split: prod.splits)

lemma Interpose_loop_started:
  "isStarted (fst (snd (pull_loop (Interpose xf sep) this acc src))) = (isStarted this \<or> src \<noteq> [])"
proof (induction src arbitrary: this acc)
  case Nil
  then show ?case by simp
next
  case (Cons x src)
  obtain r this' where st: "Interpose_step xf sep this acc x = (r, this')"
    by (cases "Interpose_step xf sep this acc x")
  have s: "isStarted this'" using Interpose_step_started[of xf sep this acc x] st by simp
  show ?case
  proof (cases r)
    case (Plain a)
    have "pull_loop (Interpose xf sep) this acc (x # src) = pull_loop (Interpose xf sep) this' a src"
      using st Plain by (simp add: Interpose_def)
    then show ?thesis using Cons.IH[of this' a] s by simp
  next
    case (Reduced a)
    have "pull_loop (Interpose xf sep) this acc (x # src) = (a, this', src)"
      using st Reduced by (simp add: Interpose_def)
    then show ?thesis using s by simp
  qed
qed

lemma interpose_final_started:
  "isStarted (final_state (interpose sep down) src) = (src \<noteq> [])"
proof -
  obtain xf s0 where down: "down = (xf, s0)" by (cases down)
  let ?t0 = "\<lparr>isStarted = False, Interpose_xf = s0\<rparr>"
  let ?i = "transducer_init (Interpose xf sep) ?t0"
  have i0: "\<not> isStarted (snd ?i)"
    using Interpose_init_frame[of xf ?t0] by (simp add: Interpose_def)
  have "isStarted (final_state (Interpose xf sep, ?t0) src)
          = isStarted (fst (snd (pull_loop (Interpose xf sep) (snd ?i) (fst ?i) src)))"
    unfolding final_state_proj Let_def using Interpose_result_frame[of xf]
    by (simp add: Interpose_def)
  also have "\<dots> = (src \<noteq> [])"
    unfolding Interpose_loop_started using i0 by simp
  finally show ?thesis by (simp add: interpose_def down)
qed

lemma PartitionAll_init_frame:
  "fst (PartitionAll_init xf this) = fst (transducer_init xf (PartitionAll_xf this))
   \<and> PartitionAll_buffer (snd (PartitionAll_init xf this)) = PartitionAll_buffer this"
  by (simp add: PartitionAll_init_def split: prod.splits)

lemma PartitionAll_result_empties:
  "PartitionAll_buffer (snd (PartitionAll_result xf this result)) = []"
  by (simp add: PartitionAll_result_def split: prod.splits)

lemma partitionAll_final_empty:
  "PartitionAll_buffer (final_state (new_PartitionAll down n) src) = []"
proof -
  obtain xf s0 where down: "down = (xf, s0)" by (cases down)
  show ?thesis
    unfolding down new_PartitionAll_def final_state_proj Let_def
    using PartitionAll_result_empties[of xf] by (simp add: PartitionAll_def)
qed


lemma Drop_step_counts:
  "Drop_i (snd (Drop_step xf n this result input)) = Drop_i this + 1"
  by (simp add: Drop_step_def Let_def split: prod.splits)

lemma second_traversal_drop:
  assumes "src \<noteq> []"
  shows "1 \<le> Drop_i (snd (transducer_init (fst (drop_stage n down))
                      (final_state (drop_stage n down) src)))"
proof -
  have "1 \<le> Drop_i (final_state (drop_stage n down) src)"
    using pulled_pos[OF assms, of "drop_stage n down"] by (simp add: drop_final_count)
  moreover have "transducer_init (fst (drop_stage n down)) = Drop_init (fst down) n"
    by (simp add: drop_stage_def Drop_def)
  ultimately show ?thesis
    by (simp add: Drop_init_frame)
qed

lemma second_traversal_interpose:
  assumes "src \<noteq> []"
  shows "isStarted (snd (transducer_init (fst (interpose sep down))
                     (final_state (interpose sep down) src)))"
proof -
  have "isStarted (final_state (interpose sep down) src)"
    using assms by (simp add: interpose_final_started)
  moreover have "transducer_init (fst (interpose sep down)) = Interpose_init (fst down)"
    by (simp add: interpose_def Interpose_def)
  ultimately show ?thesis
    by (simp add: Interpose_init_frame)
qed

lemma second_traversal_partitionAll:
  "PartitionAll_buffer (snd (transducer_init (fst (new_PartitionAll down n))
                     (final_state (new_PartitionAll down n) src))) = []"
proof -
  have "transducer_init (fst (new_PartitionAll down n)) = PartitionAll_init (fst down)"
    by (simp add: new_PartitionAll_def PartitionAll_def)
  then show ?thesis
    by (simp add: PartitionAll_init_frame partitionAll_final_empty)
qed

text \<open>
  Claim C9, as the code has it. The counter of \<open>Drop\<close>, the flag \<open>isStarted\<close> of
  \<open>Interpose\<close> and the buffer of \<open>PartitionAll\<close> are fields of the transformer object, not
  of the accumulator: init returns the accumulator of the downstream init and leaves the
  field as it is. Every step of \<open>Drop\<close> increments the counter and every step of
  \<open>Interpose\<close> sets the flag, and neither init nor result resets them. So a chain whose
  first stage is \<open>drop\<close> or \<open>interpose\<close> leaves a traversal with the counter at the number
  of elements pulled and the flag set as soon as one is pulled, and after a traversal of a
  non-empty source it does not begin the next traversal in its initial state. The result
  of \<open>PartitionAll\<close> always leaves the buffer empty: a chain whose first stage is
  \<open>partitionAll\<close> begins the next traversal with the buffer as it was initially.
\<close>

theorem instance_state_across_traversals:
  "fst (Drop_init xf n this) = fst (transducer_init xf (Drop_xf this))
   \<and> Drop_i (snd (Drop_init xf n this)) = Drop_i this
   \<and> fst (Interpose_init xf thisI) = fst (transducer_init xf (Interpose_xf thisI))
   \<and> isStarted (snd (Interpose_init xf thisI)) = isStarted thisI
   \<and> fst (PartitionAll_init xfa thisP) = fst (transducer_init xfa (PartitionAll_xf thisP))
   \<and> PartitionAll_buffer (snd (PartitionAll_init xfa thisP)) = PartitionAll_buffer thisP
   \<and> Drop_i (final_state (drop_stage n down) src) = int (pulled (drop_stage n down) src)
   \<and> (src \<noteq> [] \<longrightarrow> 1 \<le> Drop_i (final_state (drop_stage n down) src))
   \<and> isStarted (final_state (interpose sep down) src) = (src \<noteq> [])
   \<and> PartitionAll_buffer (final_state (new_PartitionAll downa m) src) = []
   \<and> Drop_i (snd (Drop_step xf n this result input)) = Drop_i this + 1
   \<and> Drop_i (snd (Drop_result xf n this result)) = Drop_i this
   \<and> isStarted (snd (Interpose_step xf sep thisI result input))
   \<and> isStarted (snd (Interpose_result xf thisI result)) = isStarted thisI
   \<and> PartitionAll_buffer (snd (PartitionAll_result xfa thisP resultP)) = []
   \<and> (src \<noteq> [] \<longrightarrow>
        1 \<le> Drop_i (snd (transducer_init (fst (drop_stage n down))
                          (final_state (drop_stage n down) src))))
   \<and> (src \<noteq> [] \<longrightarrow>
        isStarted (snd (transducer_init (fst (interpose sep down))
                          (final_state (interpose sep down) src))))
   \<and> PartitionAll_buffer (snd (transducer_init (fst (new_PartitionAll downa m))
                          (final_state (new_PartitionAll downa m) src))) = []
   \<and> Drop_i (snd (drop_stage n down)) = 0
   \<and> \<not> isStarted (snd (interpose sep down))
   \<and> PartitionAll_buffer (snd (new_PartitionAll downa m)) = []"
proof -
  have s1: "Drop_i (snd (drop_stage n down)) = 0"
    by (simp add: drop_stage_def)
  have s2: "\<not> isStarted (snd (interpose sep down))"
    by (simp add: interpose_def)
  have s3: "PartitionAll_buffer (snd (new_PartitionAll downa m)) = []"
    by (simp add: new_PartitionAll_def)
  have pos: "src \<noteq> [] \<longrightarrow> 1 \<le> Drop_i (final_state (drop_stage n down) src)"
    using pulled_pos[of src "drop_stage n down"] by (simp add: drop_final_count)
  have d2: "src \<noteq> [] \<longrightarrow>
        1 \<le> Drop_i (snd (transducer_init (fst (drop_stage n down))
                          (final_state (drop_stage n down) src)))"
    using second_traversal_drop[of src n down] by (rule impI)
  have i2: "src \<noteq> [] \<longrightarrow>
        isStarted (snd (transducer_init (fst (interpose sep down))
                          (final_state (interpose sep down) src)))"
    using second_traversal_interpose[of src sep down] by (rule impI)
  show ?thesis
    by (intro conjI Drop_init_frame[THEN conjunct1] Drop_init_frame[THEN conjunct2]
          Interpose_init_frame[THEN conjunct1] Interpose_init_frame[THEN conjunct2]
          PartitionAll_init_frame[THEN conjunct1] PartitionAll_init_frame[THEN conjunct2]
          drop_final_count pos interpose_final_started partitionAll_final_empty
          Drop_step_counts Drop_result_frame Interpose_step_started Interpose_result_frame
          PartitionAll_result_empties d2 i2 second_traversal_partitionAll s1 s2 s3)
qed

text \<open>
  The theorem at \<open>drop 2\<close> over 1, 2, 3 and \<open>interpose 0\<close> over 1, 2: a second traversal
  with the same objects drops nothing and puts a separator before the first element.
\<close>

theorem instance_state_across_traversals_witness:
  "Drop_i (final_state (drop_stage 2 toArray) [1, 2, 3 :: int]) = 3
   \<and> drive_output (drop_stage 2 toArray) [1, 2, 3 :: int] = [3]
   \<and> drive_output (fst (drop_stage 2 toArray), final_state (drop_stage 2 toArray) [1, 2, 3 :: int])
        [1, 2, 3 :: int] = [1, 2, 3]
   \<and> isStarted (final_state (interpose 0 toArray) [1, 2 :: int])
   \<and> drive_output (fst (interpose 0 toArray), final_state (interpose 0 toArray) [1, 2 :: int])
        [1, 2 :: int] = [0, 1, 0, 2]"
proof -
  note t = instance_state_across_traversals[where n = 2 and down = toArray
      and src = "[1, 2, 3 :: int]"]
  have p: "pulled (drop_stage 2 toArray) [1, 2, 3 :: int] = 3"
    by (simp add: pulled_def unpulled_def drive_def drop_stage_def Drop_def Drop_init_def
          Drop_result_def Drop_step_def toArray_def aPush_def)
  have w1: "Drop_i (final_state (drop_stage 2 toArray) [1, 2, 3 :: int]) = 3"
    using t[THEN conjunct2, THEN conjunct2, THEN conjunct2, THEN conjunct2, THEN conjunct2,
            THEN conjunct2, THEN conjunct1] p
    by simp
  have fs: "final_state (drop_stage 2 toArray) [1, 2, 3 :: int] = \<lparr>Drop_i = 3, Drop_xf = ()\<rparr>"
    using w1 by (cases "final_state (drop_stage 2 toArray) [1, 2, 3 :: int]") simp
  have w2: "drive_output (drop_stage 2 toArray) [1, 2, 3 :: int] = [3]"
    by (simp add: drive_output_def drive_def drop_stage_def Drop_def Drop_init_def
          Drop_result_def Drop_step_def toArray_def aPush_def)
  have w3: "drive_output (fst (drop_stage 2 toArray),
              final_state (drop_stage 2 toArray) [1, 2, 3 :: int]) [1, 2, 3 :: int] = [1, 2, 3]"
    unfolding fs
    by (simp add: drive_output_def drive_def drop_stage_def Drop_def Drop_init_def
          Drop_result_def Drop_step_def toArray_def aPush_def)
  have w4: "isStarted (final_state (interpose 0 toArray) [1, 2 :: int])"
    using instance_state_across_traversals[where sep = 0 and down = toArray
            and src = "[1, 2 :: int]", THEN conjunct2, THEN conjunct2, THEN conjunct2,
            THEN conjunct2, THEN conjunct2, THEN conjunct2, THEN conjunct2, THEN conjunct2,
            THEN conjunct1]
    by simp
  have fi: "final_state (interpose 0 toArray) [1, 2 :: int]
              = \<lparr>isStarted = True, Interpose_xf = ()\<rparr>"
    using w4 by (cases "final_state (interpose 0 toArray) [1, 2 :: int]") simp
  have w5: "drive_output (fst (interpose 0 toArray),
              final_state (interpose 0 toArray) [1, 2 :: int]) [1, 2 :: int] = [0, 1, 0, 2]"
    unfolding fi
    by (simp add: drive_output_def drive_def interpose_def Interpose_def Interpose_init_def
          Interpose_result_def Interpose_step_def toArray_def aPush_def)
  show ?thesis by (intro conjI w1 w2 w3 w4 w5)
qed

text \<open>
  C9 as stated fails: after a completed traversal \<open>partitionAll 2\<close> is in its initial
  state again, and so is \<open>drop 2\<close> after a traversal of the empty source; and a \<open>drop\<close>
  or \<open>interpose\<close> that no element reaches, behind a \<open>filter\<close> that passes nothing or a
  \<open>take 0\<close>, is in its initial state after a traversal of 1, 2, 3.
\<close>

theorem instance_state_across_traversals_counterexample:
  "snd (new_PartitionAll (toArray :: (unit, int list list, int list list, int list) stage) 2)
     = \<lparr>PartitionAll_buffer = [], PartitionAll_xf = ()\<rparr>
   \<and> final_state (new_PartitionAll toArray 2) [1, 2, 3 :: int]
     = \<lparr>PartitionAll_buffer = [], PartitionAll_xf = ()\<rparr>
   \<and> snd (drop_stage 2 (toArray :: (unit, int list, int list, int) stage))
     = \<lparr>Drop_i = 0, Drop_xf = ()\<rparr>
   \<and> final_state (drop_stage 2 toArray) ([] :: int list) = \<lparr>Drop_i = 0, Drop_xf = ()\<rparr>
   \<and> final_state (filter_stage (\<lambda>x. False) (drop_stage 2 toArray)) [1, 2, 3 :: int]
     = \<lparr>Drop_i = 0, Drop_xf = ()\<rparr>
   \<and> snd (take_stage 0 (interpose 0 (toArray :: (unit, int list, int list, int) stage)))
     = \<lparr>Take_i = 0, Take_xf = \<lparr>isStarted = False, Interpose_xf = ()\<rparr>\<rparr>
   \<and> final_state (take_stage 0 (interpose 0 toArray)) [1, 2, 3 :: int]
     = \<lparr>Take_i = 0, Take_xf = \<lparr>isStarted = False, Interpose_xf = ()\<rparr>\<rparr>"
  by (simp add: final_state_def drive_def new_PartitionAll_def PartitionAll_def
        PartitionAll_init_def PartitionAll_result_def PartitionAll_step_def
        drop_stage_def Drop_def Drop_init_def Drop_result_def
        filter_stage_def Filter_def Filter_init_def Filter_result_def Filter_step_def
        take_stage_def Take_def Take_init_def Take_result_def Take_step_def reduced_def
        interpose_def Interpose_def Interpose_init_def Interpose_result_def
        toArray_def aPush_def)

subsection \<open>Propagation of the signal\<close>
































end
